theory Spec2Isabelle
  imports Main
begin

text \<open>
  The event dispatcher of this repository, in its latest version: the class
  \<^verbatim>\<open>EventDispatcher\<close> (first document of src/unnamed/part_003) and the class
  \<^verbatim>\<open>Event\<close> it constructs (second document of src/src/TypeAssertion.ts).

  The dispatcher is a record of its fields, and each method is a function from the
  state before the call to the result and the state after it. A handler is a function
  object, known by its identity; what it does when called is given by a program, and
  the methods are defined for any way of calling handlers, so that statements that do
  not depend on what handlers do hold for all handlers.
\<close>

section \<open>Values, objects and the Event class\<close>

text \<open>
  The JavaScript values that occur as payload fields and as return values of handlers.
\<close>

datatype jsval = VUndefined | VNull | VBool bool | VNum int | VStr string

text \<open>
  A plain object is the list of its own properties in insertion order, each key at most
  once. \<open>assign obj k v\<close> is the statement \<^verbatim>\<open>obj[k] = v\<close>: an existing key keeps its
  place and takes the new value, a new key goes to the end. The name \<^verbatim>\<open>__proto__\<close>
  is an accessor that objects inherit from \<^verbatim>\<open>Object.prototype\<close>: where it is not an
  own key, assigning one of these values to it creates no property.
\<close>

type_synonym object = "(string \<times> jsval) list"

fun assign :: "object \<Rightarrow> string \<Rightarrow> jsval \<Rightarrow> object" where
  "assign [] k v = (if k = ''__proto__'' then [] else [(k, v)])"
| "assign ((k', v') # rest) k v =
     (if k' = k then (k, v) # rest else (k', v') # assign rest k v)"

definition getProperty :: "object \<Rightarrow> string \<Rightarrow> jsval option" where
  "getProperty obj k = map_of obj k"

text \<open>
  \<^verbatim>\<open>Event\<close> (src/src/TypeAssertion.ts, second document, lines 41-55):
  \<^verbatim>\<open>
  constructor(type: string, options?: EventInit) {
    const mergedOptions = { ...defaultEventInit, ...options }
    this.type = type
    this.defineProperties(mergedOptions.properties)
  }
  protected defineProperties(properties: Record<string, any>) {
    for (const property in properties) {
      ;(this as any)[property] = properties[property]
    }
  }
  \<close>
  \<open>EventInit\<close> has one optional field, \<open>properties\<close>; the default is the empty object.
\<close>

record eventInit =
  properties :: "object option"

definition defaultEventInit :: eventInit where
  "defaultEventInit = \<lparr>properties = Some []\<rparr>"

fun defineProperties :: "object \<Rightarrow> object \<Rightarrow> object" where
  "defineProperties this [] = this"
| "defineProperties this ((property, v) # rest) =
     defineProperties (assign this property v) rest"

definition Event :: "string \<Rightarrow> eventInit option \<Rightarrow> object" where
  "Event type options =
     (let mergedOptions = (case options of None \<Rightarrow> defaultEventInit | Some init \<Rightarrow> init);
          this = [(''type'', VStr type)]
      in case properties mergedOptions of
           None \<Rightarrow> this
         | Some props \<Rightarrow> defineProperties this props)"

section \<open>The validity ruleset\<close>

text \<open>
  \<^verbatim>\<open>validEventTypes: (string | RegExp)[]\<close>. A regular expression is taken by what
  \<^verbatim>\<open>validEvent.test(eventType)\<close> answers, a predicate on strings (a pattern without
  the global or sticky flag, whose test does not depend on earlier tests).
\<close>

datatype rule = Text string | Pattern "string \<Rightarrow> bool"

fun isRegexp :: "rule \<Rightarrow> bool" where
  "isRegexp (Pattern p) = True"
| "isRegexp (Text s) = False"

text \<open>The argument of the validation functions, \<^verbatim>\<open>string | string[]\<close>.\<close>

datatype eventTypes = Single string | Multiple "string list"

fun asArray :: "eventTypes \<Rightarrow> string list" where
  "asArray (Multiple xs) = xs"
| "asArray (Single x) = [x]"

text \<open>The body of the inner loop of \<^verbatim>\<open>isValidEvent\<close>: the value of \<^verbatim>\<open>isValid\<close>.\<close>

fun ruleTest :: "rule \<Rightarrow> string \<Rightarrow> bool" where
  "ruleTest (Pattern p) eventType = p eventType"
| "ruleTest (Text validEvent) eventType = (eventType = validEvent)"

text \<open>
  \<^verbatim>\<open>isValidEvent\<close> (src/unnamed/part_003, lines 251-273):
  \<^verbatim>\<open>
  let validEventCount = 0
  const eventTypes = asArray(eventType)
  for (let eventType of eventTypes) {
    for (let validEvent of this.validEventTypes) {
      let isValid
      if (isRegexp(validEvent)) { isValid = validEvent.test(eventType) }
      else { isValid = eventType === validEvent }
      if (isValid) {
        validEventCount++
        if (validEventCount === eventTypes.length) { return true }
      }
    }
  }
  return false
  \<close>
  \<open>scanRules\<close> is the inner loop for one event type, started with the counter
  \<open>validEventCount\<close>; \<open>n\<close> is \<^verbatim>\<open>eventTypes.length\<close>. It answers \<open>None\<close> when
  \<^verbatim>\<open>return true\<close> was reached, and otherwise the counter at the end of the loop.
  \<open>scanTypes\<close> is the outer loop.
\<close>

fun scanRules :: "rule list \<Rightarrow> string \<Rightarrow> nat \<Rightarrow> nat \<Rightarrow> nat option" where
  "scanRules [] eventType n validEventCount = Some validEventCount"
| "scanRules (validEvent # rest) eventType n validEventCount =
     (if ruleTest validEvent eventType
      then (if Suc validEventCount = n then None
            else scanRules rest eventType n (Suc validEventCount))
      else scanRules rest eventType n validEventCount)"

fun scanTypes :: "rule list \<Rightarrow> string list \<Rightarrow> nat \<Rightarrow> nat \<Rightarrow> bool" where
  "scanTypes rules [] n validEventCount = False"
| "scanTypes rules (eventType # rest) n validEventCount =
     (case scanRules rules eventType n validEventCount of
        None \<Rightarrow> True
      | Some validEventCount' \<Rightarrow> scanTypes rules rest n validEventCount')"

definition validUnder :: "rule list \<Rightarrow> eventTypes \<Rightarrow> bool" where
  "validUnder rules eventType =
     (let eventTypes = asArray eventType
      in scanTypes rules eventTypes (length eventTypes) 0)"

section \<open>The dispatcher\<close>

subsection \<open>Handlers\<close>

text \<open>
  A handler is a function object and is compared by identity. \<open>Fn k\<close> is the function
  the caller wrote, with identity \<open>k\<close>. \<open>Onetime i eventType callback\<close> is the closure
  \<^verbatim>\<open>onetimeCallback\<close> that the \<open>i\<close>-th call of \<^verbatim>\<open>one\<close> created, with the
  \<^verbatim>\<open>eventType\<close> and \<^verbatim>\<open>callback\<close> it captured: every call of \<^verbatim>\<open>one\<close> creates
  a new function object, so two closures over the same handler are different handlers.
\<close>

datatype callback = Fn nat | Onetime nat string callback

text \<open>
  The receiver of a handler call (\<^verbatim>\<open>this.callbackContext || this\<close>): the dispatcher
  itself, or another object, known by its identity.
\<close>

datatype receiver = This | Object nat

text \<open>
  \<^verbatim>\<open>EventInterface = { readonly type: string }\<close>: an object with a field \<^verbatim>\<open>type\<close>
  that holds a string, given by that string and the other properties of the object. It
  is taken to be an instance of \<^verbatim>\<open>Event\<close>, as the objects are that \<^verbatim>\<open>trigger\<close>
  constructs, without an own property \<^verbatim>\<open>__proto__\<close>.
\<close>

datatype eventInterface = EventInterface string object

fun typeField :: "eventInterface \<Rightarrow> string" where
  "typeField (EventInterface t rest) = t"

fun objectOf :: "eventInterface \<Rightarrow> object" where
  "objectOf (EventInterface t rest) = (''type'', VStr t) # rest"

text \<open>The first parameter of \<^verbatim>\<open>trigger\<close>, \<^verbatim>\<open>Keys<EventsMap> | EventInterface\<close>.\<close>

datatype typeOrEvent = OfType string | OfEvent eventInterface

fun isEventObject :: "typeOrEvent \<Rightarrow> bool" where
  "isEventObject (OfEvent e) = True"
| "isEventObject (OfType t) = False"

text \<open>The function \<^verbatim>\<open>off\<close> that \<^verbatim>\<open>on\<close> returns: it calls \<^verbatim>\<open>this.off(eventType, callback)\<close>.\<close>

datatype offEvent = OffEvent string callback

text \<open>
  What a handler is called with: an event object, or, where the cache was read under a
  name that it only inherits, what it inherits there: the method or accessor of a
  prototype with that name, or the value of a field.
\<close>

datatype argument = EventObject object | InheritedValue string | FieldValue jsval

text \<open>
  The values that count as true in a condition: every object and function, and the
  values other than \<^verbatim>\<open>undefined\<close>, \<^verbatim>\<open>null\<close>, \<^verbatim>\<open>false\<close>, \<^verbatim>\<open>0\<close> and the empty
  string.
\<close>

fun truthy :: "argument \<Rightarrow> bool" where
  "truthy (EventObject eventObject) = True"
| "truthy (InheritedValue name) = True"
| "truthy (FieldValue v) = (v \<notin> {VUndefined, VNull, VBool False, VNum 0, VStr []})"

text \<open>
  What a handler written by the caller does when it is called: the calls it makes on
  the dispatcher, in order, and then the value it returns or throws. A \<open>program\<close>
  gives this for every function identity, receiver and argument.
\<close>

datatype command =
    DoOn string callback "bool option"
  | DoOne string callback "bool option"
  | DoOff string "callback option"
  | DoTrigger typeOrEvent "object option"
  | DoDisable
  | DoEnable
  | DoSetCallbackContext receiver
  | DoClear
  | DoRemoveLastEventObjectOf string

datatype completion = Return jsval | Throw jsval

type_synonym program = "nat \<Rightarrow> receiver \<Rightarrow> argument \<Rightarrow> command list \<times> completion"

subsection \<open>State\<close>

text \<open>
  The fields of \<^verbatim>\<open>EventDispatcher\<close> (src/unnamed/part_003, lines 21-26). A
  \<^verbatim>\<open>Set\<close> of handlers is the list of its members in insertion order, without
  repetition. \<open>callbacks\<close> and \<open>lastEvents\<close> are plain objects used as dictionaries: the
  maps give their own properties.

  Two more fields record what the run did: \<open>closures\<close> counts the \<^verbatim>\<open>onetimeCallback\<close>
  closures created so far (the identity of the next one), \<open>calls\<close> lists every handler
  call made so far, with its receiver and argument.
\<close>

record dispatcher =
  validEventTypes :: "rule list"
  callbacks :: "string \<rightharpoonup> callback list"
  lastEvents :: "string \<rightharpoonup> object"
  disabled :: bool
  callbackContext :: receiver
  triggerLastEvent :: bool
  closures :: nat
  calls :: "(callback \<times> receiver \<times> argument) list"

record options =
  optValidEventTypes :: "rule list option"
  optTriggerLastEvent :: "bool option"

text \<open>
  The constructor (lines 31-37), with the defaults \<^verbatim>\<open>validEventTypes = [/.*/]\<close> and
  \<^verbatim>\<open>triggerLastEvent = false\<close>.
\<close>

definition EventDispatcher :: "options \<Rightarrow> dispatcher" where
  "EventDispatcher opts =
     \<lparr>validEventTypes =
        (case optValidEventTypes opts of None \<Rightarrow> [Pattern (\<lambda>s. True)] | Some rules \<Rightarrow> rules),
      callbacks = Map.empty,
      lastEvents = Map.empty,
      disabled = False,
      callbackContext = This,
      triggerLastEvent = (case optTriggerLastEvent opts of None \<Rightarrow> False | Some b \<Rightarrow> b),
      closures = 0,
      calls = []\<rparr>"

subsection \<open>Results\<close>

text \<open>
  A call returns a value, or throws, or does not return (a handler that calls the
  dispatcher again without end). The state at the return or at the throw is part of
  the result. The message of the error of \<^verbatim>\<open>validateEventType\<close> names the rejected
  argument; \<open>TypeError\<close> is what a method call on \<^verbatim>\<open>undefined\<close> throws.
\<close>

datatype error = InvalidEventType eventTypes | TypeError | Thrown jsval

datatype ('a, 's) outcome = Diverged | Threw error 's | Returned 'a 's

definition andThen :: "('a, 's) outcome \<Rightarrow> ('a \<Rightarrow> 's \<Rightarrow> ('b, 's) outcome) \<Rightarrow> ('b, 's) outcome" where
  "andThen r f = (case r of Diverged \<Rightarrow> Diverged | Threw e s \<Rightarrow> Threw e s | Returned v s \<Rightarrow> f v s)"

text \<open>How a handler is called: \<^verbatim>\<open>callback.call(receiver, eventObject)\<close>.\<close>

type_synonym caller =
  "callback \<Rightarrow> receiver \<Rightarrow> argument \<Rightarrow> dispatcher \<Rightarrow> (jsval, dispatcher) outcome"

subsection \<open>Validation\<close>

definition isValidEvent :: "dispatcher \<Rightarrow> eventTypes \<Rightarrow> bool" where
  "isValidEvent this eventType = validUnder (validEventTypes this) eventType"

text \<open>\<^verbatim>\<open>validateEventType\<close> (lines 238-243).\<close>

definition validateEventType :: "dispatcher \<Rightarrow> eventTypes \<Rightarrow> (unit, dispatcher) outcome" where
  "validateEventType this eventType =
     (if \<not> isValidEvent this eventType then Threw (InvalidEventType eventType) this
      else Returned () this)"

subsection \<open>The registry\<close>

text \<open>
  \<^verbatim>\<open>callbacks\<close> is created as \<^verbatim>\<open>{}\<close>, an object that inherits from
  \<^verbatim>\<open>Object.prototype\<close>. The operator \<^verbatim>\<open>in\<close> and a property read follow the
  prototype chain, so besides its own keys the object answers to the names of
  \<^verbatim>\<open>Object.prototype\<close>. Their values are functions, and for \<^verbatim>\<open>__proto__\<close> the
  prototype object itself; none of them is a \<^verbatim>\<open>Set\<close>. \<open>objectPrototype\<close> lists each
  name with the \<^verbatim>\<open>length\<close> of its value (the number of parameters of the function;
  the prototype object has no \<^verbatim>\<open>length\<close>, which counts as 0): this is the number of
  elements \<^verbatim>\<open>Array.from\<close> gives for such a value, all of them \<^verbatim>\<open>undefined\<close>.
\<close>

definition objectPrototype :: "(string \<times> nat) list" where
  "objectPrototype =
     [(''constructor'', 1), (''__defineGetter__'', 2), (''__defineSetter__'', 2),
      (''hasOwnProperty'', 1), (''__lookupGetter__'', 1), (''__lookupSetter__'', 1),
      (''isPrototypeOf'', 1), (''propertyIsEnumerable'', 1), (''toString'', 0),
      (''valueOf'', 0), (''__proto__'', 0), (''toLocaleString'', 0)]"

definition inheritedName :: "string \<Rightarrow> bool" where
  "inheritedName eventType = (eventType \<in> fst ` set objectPrototype)"

text \<open>
  \<^verbatim>\<open>hasCallbacks\<close> (lines 231-233), \<^verbatim>\<open>return eventType in this.callbacks\<close>: true for
  an own key and for an inherited name.
\<close>

definition hasCallbacks :: "dispatcher \<Rightarrow> string \<Rightarrow> bool" where
  "hasCallbacks this eventType = (eventType \<in> dom (callbacks this) \<or> inheritedName eventType)"

text \<open>
  \<^verbatim>\<open>callbacksForEvent\<close> (lines 224-226), \<^verbatim>\<open>return this.callbacks[eventType]\<close>: the
  set under an own key, or else the inherited value, or else \<^verbatim>\<open>undefined\<close>.
\<close>

datatype registryValue = Handlers "callback list" | Inherited nat | Undefined

definition callbacksForEvent :: "dispatcher \<Rightarrow> string \<Rightarrow> registryValue" where
  "callbacksForEvent this eventType =
     (case callbacks this eventType of
        Some members \<Rightarrow> Handlers members
      | None \<Rightarrow>
          (case map_of objectPrototype eventType of
             Some n \<Rightarrow> Inherited n
           | None \<Rightarrow> Undefined))"

text \<open>\<^verbatim>\<open>Set.prototype.add\<close> and \<^verbatim>\<open>Set.prototype.delete\<close>.\<close>

definition setAdd :: "callback list \<Rightarrow> callback \<Rightarrow> callback list" where
  "setAdd members callback = (if callback \<in> set members then members else members @ [callback])"

definition setDelete :: "callback list \<Rightarrow> callback \<Rightarrow> callback list" where
  "setDelete members callback = removeAll callback members"

subsection \<open>The last-event cache, the switches\<close>

text \<open>
  \<^verbatim>\<open>lastEvents\<close> is created as \<^verbatim>\<open>{}\<close> as well, and \<^verbatim>\<open>in\<close> and a property read
  find the names of \<^verbatim>\<open>Object.prototype\<close> in it.

  \<^verbatim>\<open>getLastEventObjectOf\<close> (lines 173-181):
  \<^verbatim>\<open>
  if (eventType in this.lastEvents) { return this.lastEvents[eventType] }
  return null
  \<close>
  \<^verbatim>\<open>removeLastEventObjectOf\<close> (lines 183-194):
  \<^verbatim>\<open>
  if (eventType in this.lastEvents) {
    const lastEvent = this.lastEvents[eventType]
    delete this.lastEvents[eventType]
    return lastEvent
  }
  return null
  \<close>
  \<^verbatim>\<open>delete\<close> removes an own property and leaves an inherited one. The result \<open>None\<close>
  is \<^verbatim>\<open>null\<close>.

  The name \<^verbatim>\<open>__proto__\<close> is an accessor of \<^verbatim>\<open>Object.prototype\<close>: the assignment
  \<^verbatim>\<open>this.lastEvents['__proto__'] = eventObject\<close> makes the event object the prototype
  of the cache, reading the name gives the prototype back, and \<^verbatim>\<open>delete\<close> does not
  undo it. The entry of the map under \<^verbatim>\<open>__proto__\<close> stands for this link. Through it
  the cache inherits the fields of that event object, then the names of
  \<^verbatim>\<open>Event.prototype\<close> (\<open>eventPrototype\<close>), then those of \<^verbatim>\<open>Object.prototype\<close>.

  \<open>lastEventsProperty\<close> is \<^verbatim>\<open>this.lastEvents[eventType]\<close>, \<open>None\<close> where
  \<^verbatim>\<open>eventType in this.lastEvents\<close> is false. In the result of the two methods,
  \<open>None\<close> is \<^verbatim>\<open>null\<close>, as is a field that holds \<^verbatim>\<open>null\<close>.
\<close>

definition eventPrototype :: "string list" where
  "eventPrototype = [''constructor'', ''defineProperties'']"

definition lastEventsProperty :: "dispatcher \<Rightarrow> string \<Rightarrow> argument option" where
  "lastEventsProperty this eventType =
     (case lastEvents this eventType of
        Some lastEvent \<Rightarrow> Some (EventObject lastEvent)
      | None \<Rightarrow>
          (case lastEvents this ''__proto__'' of
             Some prototype \<Rightarrow>
               (case map_of prototype eventType of
                  Some v \<Rightarrow> Some (FieldValue v)
                | None \<Rightarrow>
                    (if eventType \<in> set eventPrototype \<or> inheritedName eventType
                     then Some (InheritedValue eventType) else None))
           | None \<Rightarrow>
               (if inheritedName eventType then Some (InheritedValue eventType) else None)))"

definition getLastEventObjectOf :: "dispatcher \<Rightarrow> string \<Rightarrow> argument option" where
  "getLastEventObjectOf this eventType = lastEventsProperty this eventType"

definition removeLastEventObjectOf :: "string \<Rightarrow> dispatcher \<Rightarrow> argument option \<times> dispatcher" where
  "removeLastEventObjectOf eventType this =
     (case lastEventsProperty this eventType of
        Some lastEvent \<Rightarrow>
          (Some lastEvent,
           if eventType = ''__proto__'' then this
           else this\<lparr>lastEvents := (lastEvents this)(eventType := None)\<rparr>)
      | None \<Rightarrow> (None, this))"

text \<open>Lines 196-219 and 42-46.\<close>

definition disable :: "dispatcher \<Rightarrow> dispatcher" where
  "disable this = this\<lparr>disabled := True\<rparr>"

definition enable :: "dispatcher \<Rightarrow> dispatcher" where
  "enable this = this\<lparr>disabled := False\<rparr>"

definition clear :: "dispatcher \<Rightarrow> dispatcher" where
  "clear this = this\<lparr>callbacks := Map.empty\<rparr>"

definition setCallbackContext :: "receiver \<Rightarrow> dispatcher \<Rightarrow> dispatcher" where
  "setCallbackContext ctx this = this\<lparr>callbackContext := ctx\<rparr>"

subsection \<open>Registration and removal\<close>

text \<open>
  \<^verbatim>\<open>on\<close> (lines 60-86):
  \<^verbatim>\<open>
  this.validateEventType(eventType)
  const triggerLastEvent = options?.triggerLastEvent || this.triggerLastEvent
  if (!this.hasCallbacks(eventType)) { this.callbacks[eventType] = new Set() }
  this.callbacks[eventType].add(callback)
  if (triggerLastEvent) {
    const lastEventObject = this.getLastEventObjectOf(eventType)
    lastEventObject && callback.call(this.callbackContext || this, lastEventObject)
  }
  const off = () => { this.off(eventType, callback) }
  return off
  \<close>
  The parameter \<open>opt\<close> is \<^verbatim>\<open>options?.triggerLastEvent\<close>, \<open>None\<close> when the options or
  the field are absent. \<open>cc\<close> says how a handler is called.
  Where \<^verbatim>\<open>this.callbacks[eventType]\<close> is not a set under an own key, it is
  \<^verbatim>\<open>undefined\<close> or an inherited value, neither of which has a method \<^verbatim>\<open>add\<close>:
  the call throws a \<^verbatim>\<open>TypeError\<close>.
\<close>

definition on ::
  "caller \<Rightarrow> string \<Rightarrow> callback \<Rightarrow> bool option \<Rightarrow> dispatcher \<Rightarrow> (offEvent, dispatcher) outcome"
where
  "on cc eventType callback opt this0 =
     andThen (validateEventType this0 (Single eventType)) (\<lambda>_ this.
       let triggerLastEvent' = (opt = Some True \<or> triggerLastEvent this);
           this1 = (if \<not> hasCallbacks this eventType
                    then this\<lparr>callbacks := (callbacks this)(eventType \<mapsto> [])\<rparr> else this)
       in case callbacks this1 eventType of
            None \<Rightarrow> Threw TypeError this1
          | Some members \<Rightarrow>
              let this2 = this1\<lparr>callbacks := (callbacks this1)(eventType \<mapsto> setAdd members callback)\<rparr>
              in andThen
                   (if triggerLastEvent'
                    then (case getLastEventObjectOf this2 eventType of
                            None \<Rightarrow> Returned VUndefined this2
                          | Some lastEventObject \<Rightarrow>
                              if truthy lastEventObject
                              then cc callback (callbackContext this2) lastEventObject this2
                              else Returned VUndefined this2)
                    else Returned VUndefined this2)
                   (\<lambda>_ this3. Returned (OffEvent eventType callback) this3))"

text \<open>
  \<^verbatim>\<open>off\<close> (lines 98-116):
  \<^verbatim>\<open>
  this.validateEventType(eventType)
  if (!this.hasCallbacks(eventType)) { return this }
  if (!callback) { delete this.callbacks[eventType]; return this }
  this.callbacks[eventType].delete(callback)
  return this
  \<close>
  For an inherited name without an own key, \<^verbatim>\<open>delete this.callbacks[eventType]\<close>
  removes nothing, and \<^verbatim>\<open>this.callbacks[eventType].delete\<close> is not a function.
\<close>

definition off :: "string \<Rightarrow> callback option \<Rightarrow> dispatcher \<Rightarrow> (unit, dispatcher) outcome" where
  "off eventType callback this0 =
     andThen (validateEventType this0 (Single eventType)) (\<lambda>_ this.
       if \<not> hasCallbacks this eventType then Returned () this
       else case callback of
              None \<Rightarrow> Returned () (this\<lparr>callbacks := (callbacks this)(eventType := None)\<rparr>)
            | Some cb \<Rightarrow>
                (case callbacks this eventType of
                   None \<Rightarrow> Threw TypeError this
                 | Some members \<Rightarrow>
                     Returned ()
                       (this\<lparr>callbacks := (callbacks this)(eventType \<mapsto> setDelete members cb)\<rparr>)))"

text \<open>Calling the function that \<^verbatim>\<open>on\<close> returned.\<close>

fun callOff :: "offEvent \<Rightarrow> dispatcher \<Rightarrow> (unit, dispatcher) outcome" where
  "callOff (OffEvent eventType callback) this = off eventType (Some callback) this"

text \<open>
  \<^verbatim>\<open>one\<close> (lines 121-134):
  \<^verbatim>\<open>
  this.validateEventType(eventType)
  const onetimeCallback = (eventObject: EventInterface) => {
    this.off(eventType, onetimeCallback as EventsMap[EventType])
    return callback.call(this.callbackContext || this, eventObject)
  }
  return this.on(eventType, onetimeCallback as EventsMap[EventType], options)
  \<close>
  Creating the closure advances \<open>closures\<close>; what the closure does when called is in
  \<open>invoke\<close> below.
\<close>

definition one ::
  "caller \<Rightarrow> string \<Rightarrow> callback \<Rightarrow> bool option \<Rightarrow> dispatcher \<Rightarrow> (offEvent, dispatcher) outcome"
where
  "one cc eventType callback opt this0 =
     andThen (validateEventType this0 (Single eventType)) (\<lambda>_ this.
       let onetimeCallback = Onetime (closures this) eventType callback;
           this1 = this\<lparr>closures := Suc (closures this)\<rparr>
       in on cc eventType onetimeCallback opt this1)"

subsection \<open>Triggering\<close>

text \<open>
  \<^verbatim>\<open>Array.from(callbacks).map((callback) => callback.call(this.callbackContext || this, eventObject))\<close>
  over the members the set had when \<^verbatim>\<open>Array.from\<close> copied it. The receiver is read
  at each call.
\<close>

fun mapCallbacks ::
  "caller \<Rightarrow> callback list \<Rightarrow> argument \<Rightarrow> dispatcher \<Rightarrow> (jsval list, dispatcher) outcome"
where
  "mapCallbacks cc [] eventObject this = Returned [] this"
| "mapCallbacks cc (callback # rest) eventObject this =
     andThen (cc callback (callbackContext this) eventObject this) (\<lambda>response this1.
       andThen (mapCallbacks cc rest eventObject this1) (\<lambda>responses this2.
         Returned (response # responses) this2))"

text \<open>
  \<^verbatim>\<open>trigger\<close> (lines 147-171):
  \<^verbatim>\<open>
  const eventObject = isEventObject(eventTypeOrEventObject)
    ? eventTypeOrEventObject
    : new Event(eventTypeOrEventObject, { properties: args || {} })
  const eventType = (isEventObject(eventTypeOrEventObject)
    ? eventTypeOrEventObject.type : eventTypeOrEventObject) as Keys<EventsMap>
  this.validateEventType(eventType)
  this.lastEvents[eventType] = eventObject
  if (this.disabled || !this.hasCallbacks(eventType)) { return null }
  const callbacks = this.callbacksForEvent(eventType)
  const responses = Array.from(callbacks).map((callback) => {
    return callback.call(this.callbackContext || this, eventObject)
  })
  return responses
  \<close>
  The result \<open>None\<close> is \<^verbatim>\<open>null\<close>. For an inherited value, \<^verbatim>\<open>Array.from\<close> gives
  as many times \<^verbatim>\<open>undefined\<close> as its \<^verbatim>\<open>length\<close> says; the map over no element
  is the empty list, and on a first element \<^verbatim>\<open>callback.call\<close> throws a
  \<^verbatim>\<open>TypeError\<close>. \<^verbatim>\<open>Array.from(undefined)\<close> throws a \<^verbatim>\<open>TypeError\<close>.
\<close>

definition eventObjectOf :: "typeOrEvent \<Rightarrow> object option \<Rightarrow> object" where
  "eventObjectOf eventTypeOrEventObject args =
     (case eventTypeOrEventObject of
        OfEvent e \<Rightarrow> objectOf e
      | OfType t \<Rightarrow>
          Event t (Some \<lparr>properties = Some (case args of None \<Rightarrow> [] | Some a \<Rightarrow> a)\<rparr>))"

definition eventTypeOf :: "typeOrEvent \<Rightarrow> string" where
  "eventTypeOf eventTypeOrEventObject =
     (case eventTypeOrEventObject of OfEvent e \<Rightarrow> typeField e | OfType t \<Rightarrow> t)"

definition trigger ::
  "caller \<Rightarrow> typeOrEvent \<Rightarrow> object option \<Rightarrow> dispatcher \<Rightarrow> (jsval list option, dispatcher) outcome"
where
  "trigger cc eventTypeOrEventObject args this0 =
     (let eventObject = eventObjectOf eventTypeOrEventObject args;
          eventType = eventTypeOf eventTypeOrEventObject
      in andThen (validateEventType this0 (Single eventType)) (\<lambda>_ this.
           let this1 = this\<lparr>lastEvents := (lastEvents this)(eventType \<mapsto> eventObject)\<rparr>
           in if disabled this1 \<or> \<not> hasCallbacks this1 eventType then Returned None this1
              else case callbacksForEvent this1 eventType of
                     Handlers members \<Rightarrow>
                       andThen (mapCallbacks cc members (EventObject eventObject) this1)
                         (\<lambda>responses this2. Returned (Some responses) this2)
                   | Inherited n \<Rightarrow>
                       (if n = 0 then Returned (Some []) this1 else Threw TypeError this1)
                   | Undefined \<Rightarrow> Threw TypeError this1))"

subsection \<open>Calling a handler\<close>

text \<open>
  One call made by a handler on the dispatcher. The value the call returns is dropped;
  an error it throws leaves the handler.
\<close>

fun perform :: "caller \<Rightarrow> command \<Rightarrow> dispatcher \<Rightarrow> (unit, dispatcher) outcome" where
  "perform cc (DoOn eventType callback opt) this =
     andThen (on cc eventType callback opt this) (\<lambda>_ this1. Returned () this1)"
| "perform cc (DoOne eventType callback opt) this =
     andThen (one cc eventType callback opt this) (\<lambda>_ this1. Returned () this1)"
| "perform cc (DoOff eventType callback) this = off eventType callback this"
| "perform cc (DoTrigger eventTypeOrEventObject args) this =
     andThen (trigger cc eventTypeOrEventObject args this) (\<lambda>_ this1. Returned () this1)"
| "perform cc DoDisable this = Returned () (disable this)"
| "perform cc DoEnable this = Returned () (enable this)"
| "perform cc (DoSetCallbackContext ctx) this = Returned () (setCallbackContext ctx this)"
| "perform cc DoClear this = Returned () (clear this)"
| "perform cc (DoRemoveLastEventObjectOf eventType) this =
     Returned () (snd (removeLastEventObjectOf eventType this))"

fun performAll :: "caller \<Rightarrow> command list \<Rightarrow> dispatcher \<Rightarrow> (unit, dispatcher) outcome" where
  "performAll cc [] this = Returned () this"
| "performAll cc (c # cs) this = andThen (perform cc c this) (\<lambda>_ this1. performAll cc cs this1)"

text \<open>
  \<open>invoke cc prog callback receiver eventObject\<close> is the call
  \<^verbatim>\<open>callback.call(receiver, eventObject)\<close>. A function of the caller makes its calls on
  the dispatcher (handlers called from there are called by \<open>cc\<close>) and completes. The
  closure of \<^verbatim>\<open>one\<close> is an arrow function: it ignores its receiver, removes itself
  and calls the handler it captured with the receiver the dispatcher has then. Every
  call is recorded in \<open>calls\<close> on entry.
\<close>

fun invoke :: "caller \<Rightarrow> program \<Rightarrow> caller" where
  "invoke cc prog (Fn k) rcv eventObject this =
     (let this0 = this\<lparr>calls := calls this @ [(Fn k, rcv, eventObject)]\<rparr>
      in andThen (performAll cc (fst (prog k rcv eventObject)) this0) (\<lambda>_ this1.
           case snd (prog k rcv eventObject) of
             Return v \<Rightarrow> Returned v this1
           | Throw v \<Rightarrow> Threw (Thrown v) this1))"
| "invoke cc prog (Onetime i eventType callback) rcv eventObject this =
     (let this0 = this\<lparr>calls := calls this @ [(Onetime i eventType callback, rcv, eventObject)]\<rparr>
      in andThen (off eventType (Some (Onetime i eventType callback)) this0) (\<lambda>_ this1.
           invoke cc prog callback (callbackContext this1) eventObject this1))"

text \<open>
  Handlers may call the dispatcher, which calls handlers, and this need not end.
  \<open>call n prog\<close> calls a handler with at most \<open>n\<close> calls of functions of the caller
  nested in each other; where more would be needed the result is \<open>Diverged\<close>.
\<close>

primrec call :: "nat \<Rightarrow> program \<Rightarrow> caller" where
  "call 0 prog = (\<lambda>callback rcv eventObject this. Diverged)"
| "call (Suc n) prog = invoke (call n prog) prog"

subsection \<open>Api\<close>

text \<open>
  \<^verbatim>\<open>Api\<close> (lines 275-312):
  \<^verbatim>\<open>
  const { validEventTypes, triggerLastEvent } = this
  const createInstance = () => {
    return new EventDispatcher<EventsMap>({ validEventTypes, triggerLastEvent })
  }
  return class {
    eventDispatcher: EventDispatcher<EventsMap>
    constructor() { this.eventDispatcher = createInstance() }
    on(eventType, fn) { return this.eventDispatcher.on(eventType, fn) }
    off(eventType, fn?) { this.eventDispatcher.off(eventType, fn); return this }
    one(eventType, fn) { return this.eventDispatcher.one(eventType, fn) }
    trigger(eventTypeOrEventObject, args?) {
      return this.eventDispatcher.trigger(eventTypeOrEventObject, args)
    }
  }
  \<close>
  The class that \<^verbatim>\<open>Api\<close> returns is the pair of values its closure captured. Several
  dispatchers now exist at once, so they live in a store: a dispatcher object is an
  address, \<open>allocated\<close> is the next free one, and \<^verbatim>\<open>new EventDispatcher\<close> takes it.
  An instance of the class holds the address of its dispatcher. Its methods run the
  dispatcher's methods on the state at that address; a handler's own calls go to the
  dispatcher that called it.
\<close>

record apiClass =
  classValidEventTypes :: "rule list"
  classTriggerLastEvent :: bool

definition Api :: "dispatcher \<Rightarrow> apiClass" where
  "Api this =
     \<lparr>classValidEventTypes = validEventTypes this, classTriggerLastEvent = triggerLastEvent this\<rparr>"

record store =
  dispatchers :: "nat \<Rightarrow> dispatcher"
  allocated :: nat

definition createInstance :: "apiClass \<Rightarrow> store \<Rightarrow> nat \<times> store" where
  "createInstance cls st =
     (allocated st,
      st\<lparr>dispatchers := (dispatchers st)
             (allocated st :=
                EventDispatcher \<lparr>optValidEventTypes = Some (classValidEventTypes cls),
                                 optTriggerLastEvent = Some (classTriggerLastEvent cls)\<rparr>),
         allocated := Suc (allocated st)\<rparr>)"

record host =
  eventDispatcher :: nat

definition newHost :: "apiClass \<Rightarrow> store \<Rightarrow> host \<times> store" where
  "newHost cls st = (case createInstance cls st of (a, st') \<Rightarrow> (\<lparr>eventDispatcher = a\<rparr>, st'))"

definition atAddress ::
  "nat \<Rightarrow> (dispatcher \<Rightarrow> ('a, dispatcher) outcome) \<Rightarrow> store \<Rightarrow> ('a, store) outcome"
where
  "atAddress a m st =
     (case m (dispatchers st a) of
        Diverged \<Rightarrow> Diverged
      | Threw e d \<Rightarrow> Threw e (st\<lparr>dispatchers := (dispatchers st)(a := d)\<rparr>)
      | Returned v d \<Rightarrow> Returned v (st\<lparr>dispatchers := (dispatchers st)(a := d)\<rparr>))"

definition hostOn ::
  "caller \<Rightarrow> host \<Rightarrow> string \<Rightarrow> callback \<Rightarrow> store \<Rightarrow> (offEvent, store) outcome"
where
  "hostOn cc this eventType fn st = atAddress (eventDispatcher this) (on cc eventType fn None) st"



definition hostTrigger ::
  "caller \<Rightarrow> host \<Rightarrow> typeOrEvent \<Rightarrow> object option \<Rightarrow> store \<Rightarrow> (jsval list option, store) outcome"
where
  "hostTrigger cc this eventTypeOrEventObject args st =
     atAddress (eventDispatcher this) (trigger cc eventTypeOrEventObject args) st"

section \<open>Notions used in the statements\<close>

text \<open>\<open>atEnd P r\<close>: if the call ended, by a return or by a throw, \<open>P\<close> holds of the state then.\<close>

definition atEnd :: "('s \<Rightarrow> bool) \<Rightarrow> ('a, 's) outcome \<Rightarrow> bool" where
  "atEnd P r = (case r of Diverged \<Rightarrow> True | Threw e s \<Rightarrow> P s | Returned v s \<Rightarrow> P s)"

text \<open>
  \<open>returnsOnly cc h ret\<close>: called by \<open>cc\<close>, the handler \<open>h\<close> returns \<open>ret rcv e\<close> and does
  nothing to the dispatcher; the call is recorded.
\<close>

definition returnsOnly :: "caller \<Rightarrow> callback \<Rightarrow> (receiver \<Rightarrow> argument \<Rightarrow> jsval) \<Rightarrow> bool" where
  "returnsOnly cc h ret =
     (\<forall>rcv e s. cc h rcv e s = Returned (ret rcv e) (s\<lparr>calls := calls s @ [(h, rcv, e)]\<rparr>))"

text \<open>The members registered for an event type, none when the key is absent.\<close>

definition bucket :: "dispatcher \<Rightarrow> string \<Rightarrow> callback list" where
  "bucket this eventType = (case callbacks this eventType of None \<Rightarrow> [] | Some members \<Rightarrow> members)"

text \<open>How often \<open>h\<close> was called, by the record of calls.\<close>

definition timesCalled :: "callback \<Rightarrow> (callback \<times> receiver \<times> argument) list \<Rightarrow> nat" where
  "timesCalled h log = length (filter (\<lambda>entry. fst entry = h) log)"

text \<open>
  \<open>rejectsSoundly rules r\<close>: the call left the rules as they are, and if it ended with
  the error of \<^verbatim>\<open>validateEventType\<close>, the argument named in the error is not valid
  under the rules. \<open>soundCaller rules cc\<close>: every handler call by \<open>cc\<close> is such a call.
\<close>

definition rejectsSoundly :: "rule list \<Rightarrow> ('a, dispatcher) outcome \<Rightarrow> bool" where
  "rejectsSoundly rules r =
     (case r of
        Diverged \<Rightarrow> True
      | Threw err s \<Rightarrow>
          validEventTypes s = rules \<and>
          (case err of InvalidEventType T \<Rightarrow> \<not> validUnder rules T | _ \<Rightarrow> True)
      | Returned v s \<Rightarrow> validEventTypes s = rules)"

definition soundCaller :: "rule list \<Rightarrow> caller \<Rightarrow> bool" where
  "soundCaller rules cc =
     (\<forall>cb rcv e s. validEventTypes s = rules \<longrightarrow> rejectsSoundly rules (cc cb rcv e s))"

text \<open>The number of rules that an event type satisfies.\<close>

definition matchCount :: "rule list \<Rightarrow> string \<Rightarrow> nat" where
  "matchCount rules eventType =
     length (filter (\<lambda>validEvent. ruleTest validEvent eventType) rules)"

text \<open>\<open>setsOnly this\<close>: no handler occurs twice among the members of an event type.\<close>

definition setsOnly :: "dispatcher \<Rightarrow> bool" where
  "setsOnly this = (\<forall>T. distinct (bucket this T))"

definition keepsSets :: "caller \<Rightarrow> bool" where
  "keepsSets cc = (\<forall>cb rcv e s. setsOnly s \<longrightarrow> atEnd setsOnly (cc cb rcv e s))"

text \<open>
  \<open>extendedBy cc cc'\<close>: wherever a handler call by \<open>cc\<close> ends, the call by \<open>cc'\<close> ends
  in the same way.
\<close>

definition extendedBy :: "caller \<Rightarrow> caller \<Rightarrow> bool" where
  "extendedBy cc cc' = (\<forall>cb rcv e s. cc cb rcv e s \<noteq> Diverged \<longrightarrow> cc' cb rcv e s = cc cb rcv e s)"

text \<open>
  The dispatcher of the test suite (tests/EventDispatcher.spec.ts, \<^verbatim>\<open>beforeEach\<close>) and
  its mock handlers (\<^verbatim>\<open>jest.fn()\<close>), which return \<^verbatim>\<open>undefined\<close>.
\<close>

definition suiteDispatcher :: dispatcher where
  "suiteDispatcher =
     EventDispatcher
       \<lparr>optValidEventTypes =
          Some [Text ''click'', Text ''touch'', Text ''sentResponse'', Text ''getPostTitle''],
        optTriggerLastEvent = None\<rparr>"

definition jestFn :: program where
  "jestFn k rcv e = ([], Return VUndefined)"

section \<open>Facts about validation\<close>

text \<open>
  What the two loops compute: the counter is advanced once for every pair of an event
  type and a rule it satisfies, and \<^verbatim>\<open>true\<close> is returned when it reaches the number
  of event types.
\<close>

lemma scanRules_count:
  "c < n \<Longrightarrow> scanRules rules t n c =
     (if n \<le> c + matchCount rules t then None else Some (c + matchCount rules t))"
  by (induction rules arbitrary: c) (auto simp: matchCount_def)

lemma scanTypes_count:
  "c < n \<Longrightarrow> scanTypes rules ts n c = (n \<le> c + sum_list (map (matchCount rules) ts))"
  by (induction ts arbitrary: c) (auto simp: scanRules_count)

lemma validUnder_iff:
  "validUnder rules arg =
     (asArray arg \<noteq> [] \<and>
      length (asArray arg) \<le> sum_list (map (matchCount rules) (asArray arg)))"
proof (cases "asArray arg = []")
  case True
  then show ?thesis by (simp add: validUnder_def)
next
  case False
  then have "0 < length (asArray arg)" by simp
  from scanTypes_count [OF this] False show ?thesis
    by (simp add: validUnder_def Let_def)
qed

text \<open>A single event type is valid exactly when it satisfies some rule.\<close>

lemma validUnder_Single: "validUnder rules (Single t) = (\<exists>r \<in> set rules. ruleTest r t)"
  by (auto simp: validUnder_iff matchCount_def filter_empty_conv Suc_le_eq)

lemma matchCount_pos: "r \<in> set rules \<Longrightarrow> ruleTest r t \<Longrightarrow> 0 < matchCount rules t"
  by (auto simp: matchCount_def filter_empty_conv)

lemma length_le_sum_matchCount:
  "\<forall>t \<in> set ts. \<exists>r \<in> set rules. ruleTest r t \<Longrightarrow>
   length ts \<le> sum_list (map (matchCount rules) ts)"
proof (induction ts)
  case Nil
  then show ?case by simp
next
  case (Cons t ts)
  then obtain r where "r \<in> set rules" "ruleTest r t" by auto
  then have "0 < matchCount rules t" by (rule matchCount_pos)
  moreover have "length ts \<le> sum_list (map (matchCount rules) ts)" using Cons by simp
  ultimately show ?case by simp
qed

text \<open>A non-empty submission whose members are all valid is accepted.\<close>

lemma validUnder_all_valid:
  "ts \<noteq> [] \<Longrightarrow> \<forall>t \<in> set ts. \<exists>r \<in> set rules. ruleTest r t \<Longrightarrow>
   validUnder rules (Multiple ts)"
  by (simp add: validUnder_iff length_le_sum_matchCount)

section \<open>Facts about the operations\<close>

subsection \<open>Results and what holds at the end of a call\<close>

lemma andThen_simps [simp]:
  "andThen Diverged f = Diverged"
  "andThen (Threw err s) f = Threw err s"
  "andThen (Returned v s) f = f v s"
  by (simp_all add: andThen_def)

lemma atEnd_simps [simp]:
  "atEnd P Diverged"
  "atEnd P (Threw err s) = P s"
  "atEnd P (Returned v s) = P s"
  by (simp_all add: atEnd_def)

lemma atEnd_andThen:
  "atEnd P r \<Longrightarrow> (\<And>v s. P s \<Longrightarrow> atEnd P (f v s)) \<Longrightarrow> atEnd P (andThen r f)"
  by (cases r) simp_all

lemma validateEventType_valid:
  "isValidEvent this eventType \<Longrightarrow> validateEventType this eventType = Returned () this"
  by (simp add: validateEventType_def)

lemma validateEventType_invalid:
  "\<not> isValidEvent this eventType \<Longrightarrow>
   validateEventType this eventType = Threw (InvalidEventType eventType) this"
  by (simp add: validateEventType_def)

lemma hasCallbacks_iff:
  "hasCallbacks this T = (callbacks this T \<noteq> None \<or> inheritedName T)"
  by (auto simp: hasCallbacks_def)

lemma inheritedName_length: "inheritedName T = (map_of objectPrototype T \<noteq> None)"
  by (simp add: inheritedName_def map_of_eq_None_iff)

lemma inheritedName_iff:
  "inheritedName T =
     (T \<in> {''constructor'', ''__defineGetter__'', ''__defineSetter__'', ''hasOwnProperty'',
            ''__lookupGetter__'', ''__lookupSetter__'', ''isPrototypeOf'', ''propertyIsEnumerable'',
            ''toString'', ''valueOf'', ''__proto__'', ''toLocaleString''})"
  by (auto simp: inheritedName_def objectPrototype_def)

subsection \<open>The operations on a valid event type\<close>

text \<open>
  An event type is without an own key and inherited when \<^verbatim>\<open>in\<close> finds it in the
  registry although nothing was registered for it. There \<^verbatim>\<open>on\<close> and
  \<^verbatim>\<open>off(T, h)\<close> throw, and \<^verbatim>\<open>trigger\<close> returns the empty list or throws. Everywhere
  else the operations are as follows.
\<close>

lemma getLastEventObjectOf_other [simp]:
  "getLastEventObjectOf (this\<lparr>callbacks := c\<rparr>) T = getLastEventObjectOf this T"
  "getLastEventObjectOf (this\<lparr>calls := l\<rparr>) T = getLastEventObjectOf this T"
  "getLastEventObjectOf (this\<lparr>closures := n\<rparr>) T = getLastEventObjectOf this T"
  "getLastEventObjectOf (this\<lparr>disabled := b\<rparr>) T = getLastEventObjectOf this T"
  "getLastEventObjectOf (this\<lparr>callbackContext := r\<rparr>) T = getLastEventObjectOf this T"
  by (simp_all add: getLastEventObjectOf_def lastEventsProperty_def cong: option.case_cong)

lemma getLastEventObjectOf_own:
  "lastEvents this T = Some ev \<Longrightarrow> getLastEventObjectOf this T = Some (EventObject ev)"
  by (simp add: getLastEventObjectOf_def lastEventsProperty_def)

lemma getLastEventObjectOf_plain:
  "lastEvents this T = None \<Longrightarrow> lastEvents this ''__proto__'' = None \<Longrightarrow> \<not> inheritedName T \<Longrightarrow>
   getLastEventObjectOf this T = None"
  by (simp add: getLastEventObjectOf_def lastEventsProperty_def)

lemma on_general:
  assumes "isValidEvent this (Single T)"
  shows "on cc T h opt this =
     (if callbacks this T = None \<and> inheritedName T then Threw TypeError this
      else andThen
       (if opt = Some True \<or> triggerLastEvent this
        then (case getLastEventObjectOf this T of
                None \<Rightarrow> Returned VUndefined
                  (this\<lparr>callbacks := (callbacks this)(T \<mapsto> setAdd (bucket this T) h)\<rparr>)
              | Some ev \<Rightarrow>
                  if truthy ev
                  then cc h (callbackContext this) ev
                         (this\<lparr>callbacks := (callbacks this)(T \<mapsto> setAdd (bucket this T) h)\<rparr>)
                  else Returned VUndefined
                         (this\<lparr>callbacks := (callbacks this)(T \<mapsto> setAdd (bucket this T) h)\<rparr>))
        else Returned VUndefined
               (this\<lparr>callbacks := (callbacks this)(T \<mapsto> setAdd (bucket this T) h)\<rparr>))
       (\<lambda>_ s. Returned (OffEvent T h) s))"
  using assms
  by (cases "callbacks this T")
     (simp_all add: on_def validateEventType_valid hasCallbacks_iff bucket_def
        Let_def split: option.split)

lemma off_general:
  assumes "isValidEvent this (Single T)"
  shows "off T cb this =
     (case callbacks this T of
        None \<Rightarrow> (if inheritedName T \<and> cb \<noteq> None then Threw TypeError this else Returned () this)
      | Some members \<Rightarrow>
          Returned ()
            (case cb of
               None \<Rightarrow> this\<lparr>callbacks := (callbacks this)(T := None)\<rparr>
             | Some c \<Rightarrow> this\<lparr>callbacks := (callbacks this)(T \<mapsto> setDelete members c)\<rparr>))"
proof (cases "callbacks this T")
  case None
  then have "(callbacks this)(T := None) = callbacks this" by auto
  then have "this\<lparr>callbacks := (callbacks this)(T := None)\<rparr> = this" by simp
  then show ?thesis
    using assms None
    by (simp add: off_def validateEventType_valid hasCallbacks_iff split: option.split)
next
  case (Some members)
  then show ?thesis
    using assms
    by (simp add: off_def validateEventType_valid hasCallbacks_iff split: option.split)
qed

lemma trigger_general:
  assumes "isValidEvent this (Single (eventTypeOf x))"
  shows "trigger cc x args this =
     (if disabled this \<or> \<not> hasCallbacks this (eventTypeOf x)
      then Returned None
             (this\<lparr>lastEvents := (lastEvents this)(eventTypeOf x \<mapsto> eventObjectOf x args)\<rparr>)
      else if callbacks this (eventTypeOf x) = None
      then (if map_of objectPrototype (eventTypeOf x) = Some 0
            then Returned (Some [])
                   (this\<lparr>lastEvents := (lastEvents this)(eventTypeOf x \<mapsto> eventObjectOf x args)\<rparr>)
            else Threw TypeError
                   (this\<lparr>lastEvents := (lastEvents this)(eventTypeOf x \<mapsto> eventObjectOf x args)\<rparr>))
      else andThen
             (mapCallbacks cc (bucket this (eventTypeOf x)) (EventObject (eventObjectOf x args))
                (this\<lparr>lastEvents := (lastEvents this)(eventTypeOf x \<mapsto> eventObjectOf x args)\<rparr>))
             (\<lambda>responses s. Returned (Some responses) s))"
  using assms
  by (cases "callbacks this (eventTypeOf x)")
     (auto simp: trigger_def validateEventType_valid hasCallbacks_iff bucket_def
        callbacksForEvent_def Let_def split: option.split)

subsection \<open>The map over the members\<close>

lemma mapCallbacks_atEnd:
  "(\<And>cb rcv s. cb \<in> set members \<Longrightarrow> P s \<Longrightarrow> atEnd P (cc cb rcv e s)) \<Longrightarrow> P s \<Longrightarrow>
   atEnd P (mapCallbacks cc members e s)"
proof (induction members arbitrary: s)
  case Nil
  then show ?case by simp
next
  case (Cons cb members)
  show ?case
    unfolding mapCallbacks.simps
  proof (rule atEnd_andThen)
    show "atEnd P (cc cb (callbackContext s) e s)" using Cons.prems by simp
  next
    fix v s1 assume "P s1"
    then have "atEnd P (mapCallbacks cc members e s1)" using Cons by simp
    then show "atEnd P (andThen (mapCallbacks cc members e s1) (\<lambda>responses this2. Returned (v # responses) this2))"
      by (rule atEnd_andThen) simp
  qed
qed

lemma mapCallbacks_returnsOnly:
  "\<forall>h \<in> set members. returnsOnly cc h (ret h) \<Longrightarrow>
   mapCallbacks cc members e s =
     Returned (map (\<lambda>h. ret h (callbackContext s) e) members)
       (s\<lparr>calls := calls s @ map (\<lambda>h. (h, callbackContext s, e)) members\<rparr>)"
  by (induction members arbitrary: s) (simp_all add: returnsOnly_def)

lemma mapCallbacks_chain:
  "(mapCallbacks cc members e s = Returned responses s') =
   (\<exists>states. length states = Suc (length members) \<and> length responses = length members \<and>
      states ! 0 = s \<and> states ! length members = s' \<and>
      (\<forall>i < length members.
         cc (members ! i) (callbackContext (states ! i)) e (states ! i) =
           Returned (responses ! i) (states ! Suc i)))"
proof (induction members arbitrary: s responses)
  case Nil
  show ?case by (auto simp: length_Suc_conv)
next
  case (Cons cb members)
  show ?case (is "?L = ?R")
  proof
    assume L: ?L
    then obtain v s1 where c: "cc cb (callbackContext s) e s = Returned v s1"
      by (cases "cc cb (callbackContext s) e s") simp_all
    with L obtain vs where m: "mapCallbacks cc members e s1 = Returned vs s'" and r: "responses = v # vs"
      by (cases "mapCallbacks cc members e s1") auto
    from m Cons.IH [of s1 vs] obtain states where
      st: "length states = Suc (length members)" "length vs = length members"
        "states ! 0 = s1" "states ! length members = s'"
        "\<forall>i < length members. cc (members ! i) (callbackContext (states ! i)) e (states ! i) =
           Returned (vs ! i) (states ! Suc i)"
      by auto
    show ?R
    proof (intro exI [of _ "s # states"] conjI allI impI)
      fix i assume "i < length (cb # members)"
      then show "cc ((cb # members) ! i) (callbackContext ((s # states) ! i)) e ((s # states) ! i) =
           Returned (responses ! i) ((s # states) ! Suc i)"
        using c st r by (cases i) auto
    qed (use st r in auto)
  next
    assume ?R
    then obtain states where
      st: "length states = Suc (length (cb # members))" "length responses = length (cb # members)"
        "states ! 0 = s" "states ! length (cb # members) = s'"
        and ch: "\<forall>i < length (cb # members). cc ((cb # members) ! i) (callbackContext (states ! i)) e (states ! i) =
           Returned (responses ! i) (states ! Suc i)"
      by auto
    from st obtain s0 rest where states: "states = s0 # rest" by (cases states) auto
    from st obtain v vs where resp: "responses = v # vs" by (cases responses) auto
    from ch [rule_format, of 0] st states resp
    have c: "cc cb (callbackContext s) e s = Returned v (rest ! 0)" by simp
    have "mapCallbacks cc members e (rest ! 0) = Returned vs s'"
    proof (subst Cons.IH, intro exI [of _ rest] conjI allI impI)
      fix i assume i: "i < length members"
      from ch [rule_format, of "Suc i"] i states resp
      show "cc (members ! i) (callbackContext (rest ! i)) e (rest ! i) = Returned (vs ! i) (rest ! Suc i)"
        by simp
    qed (use st states resp in auto)
    with c resp show ?L by simp
  qed
qed

subsection \<open>Handlers that only return a value\<close>

lemma invoke_Fn_plain:
  assumes "prog k rcv e = ([], Return v)"
  shows "invoke cc prog (Fn k) rcv e s = Returned v (s\<lparr>calls := calls s @ [(Fn k, rcv, e)]\<rparr>)"
  using assms by (simp add: Let_def)

lemma returnsOnly_call:
  assumes "\<And>rcv e. prog k rcv e = ([], Return (ret rcv e))"
  shows "returnsOnly (call (Suc n) prog) (Fn k) ret"
  by (simp add: returnsOnly_def assms Let_def)

lemma on_returnsOnly:
  assumes "isValidEvent this (Single T)" and "returnsOnly cc h ret"
    and "callbacks this T \<noteq> None \<or> \<not> inheritedName T"
  shows "on cc T h opt this =
     Returned (OffEvent T h)
       (this\<lparr>callbacks := (callbacks this)(T \<mapsto> setAdd (bucket this T) h),
             calls := calls this @
               (if opt = Some True \<or> triggerLastEvent this
                then (case getLastEventObjectOf this T of None \<Rightarrow> [] | Some ev \<Rightarrow>
                    if truthy ev
                    then [(h, callbackContext this, ev)]
                    else [])
                else [])\<rparr>)"
  using assms by (auto simp: on_general returnsOnly_def split: option.split)

lemma off_lastEvents: "atEnd (\<lambda>s'. lastEvents s' = lastEvents s \<and> calls s' = calls s) (off T cb s)"
proof (cases "isValidEvent s (Single T)")
  case True
  then show ?thesis by (simp add: off_general split: option.split)
next
  case False
  then show ?thesis by (simp add: off_def validateEventType_invalid)
qed

lemma invoke_noscript_lastEvents:
  assumes "\<And>k rcv e. fst (prog k rcv e) = []"
  shows "atEnd (\<lambda>s'. lastEvents s' = lastEvents s) (invoke cc prog cb rcv e s)"
proof (induction cb arbitrary: rcv s)
  case (Fn k)
  show ?case by (simp add: assms Let_def split: completion.split)
next
  case (Onetime i T cb)
  let ?s0 = "s\<lparr>calls := calls s @ [(Onetime i T cb, rcv, e)]\<rparr>"
  have "atEnd (\<lambda>s'. lastEvents s' = lastEvents s) (off T (Some (Onetime i T cb)) ?s0)"
    using off_lastEvents [of ?s0 T "Some (Onetime i T cb)"]
    by (cases "off T (Some (Onetime i T cb)) ?s0") simp_all
  then show ?case
    unfolding invoke.simps Let_def
  proof (rule atEnd_andThen)
    fix v and s1 :: dispatcher assume "lastEvents s1 = lastEvents s"
    with Onetime [where rcv = "callbackContext s1" and s = s1]
    show "atEnd (\<lambda>s'. lastEvents s' = lastEvents s) (invoke cc prog cb (callbackContext s1) e s1)"
      by simp
  qed
qed

subsection \<open>Sets of handlers\<close>

lemma setAdd_idem: "setAdd (setAdd members h) h = setAdd members h"
  by (simp add: setAdd_def)

lemma distinct_setAdd: "distinct members \<Longrightarrow> distinct (setAdd members h)"
  by (simp add: setAdd_def)

lemma distinct_setDelete: "distinct members \<Longrightarrow> distinct (setDelete members h)"
  by (simp add: setDelete_def distinct_removeAll)

lemma count_list_distinct: "distinct xs \<Longrightarrow> x \<in> set xs \<Longrightarrow> count_list xs x = 1"
  by (induction xs) auto

lemma count_setAdd: "distinct members \<Longrightarrow> count_list (setAdd members h) h = 1"
  by (rule count_list_distinct) (auto simp: setAdd_def)

lemma timesCalled_map:
  "timesCalled h (map (\<lambda>c. (c, rcv, e)) members) = count_list members h"
  by (induction members) (auto simp: timesCalled_def)

text \<open>
  The members of every event type stay without repetition, whatever the handlers do:
  a new dispatcher has the property, and every call keeps it.
\<close>

lemma setsOnly_new: "setsOnly (EventDispatcher opts)"
  by (simp add: setsOnly_def bucket_def EventDispatcher_def)

lemma setsOnly_update:
  "setsOnly this \<Longrightarrow> distinct members \<Longrightarrow>
   setsOnly (this\<lparr>callbacks := (callbacks this)(T \<mapsto> members)\<rparr>)"
  by (simp add: setsOnly_def bucket_def)

lemma setsOnly_drop:
  "setsOnly this \<Longrightarrow> setsOnly (this\<lparr>callbacks := (callbacks this)(T := None)\<rparr>)"
  by (simp add: setsOnly_def bucket_def)

lemma setsOnly_bucket: "setsOnly this \<Longrightarrow> callbacks this T = Some members \<Longrightarrow> distinct members"
  by (auto simp: setsOnly_def bucket_def split: option.splits dest: spec [of _ T])

lemma setsOnly_other [simp]:
  "setsOnly (this\<lparr>lastEvents := l\<rparr>) = setsOnly this"
  "setsOnly (this\<lparr>calls := c\<rparr>) = setsOnly this"
  "setsOnly (this\<lparr>closures := n\<rparr>) = setsOnly this"
  "setsOnly (this\<lparr>disabled := b\<rparr>) = setsOnly this"
  "setsOnly (this\<lparr>callbackContext := r\<rparr>) = setsOnly this"
  by (simp_all add: setsOnly_def bucket_def)

lemma setsOnly_off: "setsOnly s \<Longrightarrow> atEnd setsOnly (off T cb s)"
proof (cases "isValidEvent s (Single T)")
  case True
  assume "setsOnly s"
  then show ?thesis
    by (auto simp: off_general [OF True] setsOnly_drop split: option.split
          intro!: setsOnly_update distinct_setDelete dest: setsOnly_bucket)
next
  case False
  assume "setsOnly s"
  then show ?thesis by (simp add: off_def validateEventType_invalid False)
qed

lemma setsOnly_on:
  assumes "keepsSets cc" and "setsOnly s"
  shows "atEnd setsOnly (on cc T h opt s)"
proof (cases "isValidEvent s (Single T)")
  case True
  have d: "distinct (setAdd (bucket s T) h)"
    using assms(2) by (simp add: distinct_setAdd setsOnly_def)
  have s: "setsOnly (s\<lparr>callbacks := (callbacks s)(T \<mapsto> setAdd (bucket s T) h)\<rparr>)"
    by (rule setsOnly_update [OF assms(2) d])
  show ?thesis
  proof (cases "callbacks s T = None \<and> inheritedName T")
    case True
    then show ?thesis using assms(2) \<open>isValidEvent s (Single T)\<close> by (simp add: on_general)
  next
    case False
    have "atEnd setsOnly
        (andThen
          (if opt = Some True \<or> triggerLastEvent s
           then (case getLastEventObjectOf s T of
                   None \<Rightarrow> Returned VUndefined
                     (s\<lparr>callbacks := (callbacks s)(T \<mapsto> setAdd (bucket s T) h)\<rparr>)
                 | Some ev \<Rightarrow>
                     if truthy ev
                     then cc h (callbackContext s) ev
                            (s\<lparr>callbacks := (callbacks s)(T \<mapsto> setAdd (bucket s T) h)\<rparr>)
                     else Returned VUndefined
                            (s\<lparr>callbacks := (callbacks s)(T \<mapsto> setAdd (bucket s T) h)\<rparr>))
           else Returned VUndefined
                  (s\<lparr>callbacks := (callbacks s)(T \<mapsto> setAdd (bucket s T) h)\<rparr>))
          (\<lambda>_ s. Returned (OffEvent T h) s))"
      by (rule atEnd_andThen) (use s assms(1) in \<open>auto simp: keepsSets_def split: option.split\<close>)
    then show ?thesis using False \<open>isValidEvent s (Single T)\<close> by (auto simp: on_general)
  qed
next
  case False
  then show ?thesis using assms(2) by (simp add: on_def validateEventType_invalid)
qed

lemma setsOnly_one:
  assumes "keepsSets cc" and "setsOnly s"
  shows "atEnd setsOnly (one cc T h opt s)"
proof (cases "isValidEvent s (Single T)")
  case True
  have "setsOnly (s\<lparr>closures := Suc (closures s)\<rparr>)" using assms(2) by simp
  from setsOnly_on [OF assms(1) this] show ?thesis
    by (simp add: one_def validateEventType_valid True Let_def)
next
  case False
  then show ?thesis using assms(2) by (simp add: one_def validateEventType_invalid)
qed

lemma setsOnly_trigger:
  assumes "keepsSets cc" and "setsOnly s"
  shows "atEnd setsOnly (trigger cc x args s)"
proof (cases "isValidEvent s (Single (eventTypeOf x))")
  case True
  let ?s1 = "s\<lparr>lastEvents := (lastEvents s)(eventTypeOf x \<mapsto> eventObjectOf x args)\<rparr>"
  have s1: "setsOnly ?s1" using assms(2) by simp
  have "atEnd setsOnly (mapCallbacks cc (bucket s (eventTypeOf x)) (EventObject (eventObjectOf x args)) ?s1)"
    by (rule mapCallbacks_atEnd) (use assms(1) s1 in \<open>auto simp: keepsSets_def\<close>)
  then have "atEnd setsOnly
      (andThen (mapCallbacks cc (bucket s (eventTypeOf x)) (EventObject (eventObjectOf x args)) ?s1)
         (\<lambda>responses s. Returned (Some responses) s))"
    by (rule atEnd_andThen) simp
  then show ?thesis using s1 by (simp add: trigger_general [OF True])
next
  case False
  then show ?thesis using assms(2) by (simp add: trigger_def validateEventType_invalid)
qed

lemma setsOnly_perform:
  assumes "keepsSets cc" and "setsOnly s"
  shows "atEnd setsOnly (perform cc c s)"
proof (cases c)
  case (DoOn T h opt)
  then show ?thesis using setsOnly_on [OF assms, of T h opt]
    by (cases "on cc T h opt s") simp_all
next
  case (DoOne T h opt)
  then show ?thesis using setsOnly_one [OF assms, of T h opt]
    by (cases "one cc T h opt s") simp_all
next
  case (DoOff T h)
  then show ?thesis using setsOnly_off [OF assms(2)] by simp
next
  case (DoTrigger x args)
  then show ?thesis using setsOnly_trigger [OF assms, of x args]
    by (cases "trigger cc x args s") simp_all
next
  case DoClear
  then show ?thesis by (simp add: clear_def setsOnly_def bucket_def)
qed (use assms(2) in \<open>simp_all add: disable_def enable_def setCallbackContext_def
      removeLastEventObjectOf_def split: option.split\<close>)

lemma setsOnly_performAll:
  assumes "keepsSets cc"
  shows "setsOnly s \<Longrightarrow> atEnd setsOnly (performAll cc cs s)"
proof (induction cs arbitrary: s)
  case Nil
  then show ?case by simp
next
  case (Cons c cs)
  show ?case
    unfolding performAll.simps
    by (rule atEnd_andThen [OF setsOnly_perform [OF assms Cons.prems]]) (rule Cons.IH)
qed

lemma setsOnly_invoke:
  assumes "keepsSets cc"
  shows "setsOnly s \<Longrightarrow> atEnd setsOnly (invoke cc prog cb rcv e s)"
proof (induction cb arbitrary: rcv s)
  case (Fn k)
  have "setsOnly (s\<lparr>calls := calls s @ [(Fn k, rcv, e)]\<rparr>)" using Fn by simp
  from setsOnly_performAll [OF assms this] show ?case
    unfolding invoke.simps Let_def
    by (rule atEnd_andThen) (simp split: completion.split)
next
  case (Onetime i T cb)
  have "setsOnly (s\<lparr>calls := calls s @ [(Onetime i T cb, rcv, e)]\<rparr>)" using Onetime.prems by simp
  from setsOnly_off [OF this] show ?case
    unfolding invoke.simps Let_def
    by (rule atEnd_andThen) (rule Onetime.IH)
qed

lemma keepsSets_call: "keepsSets (call n prog)"
proof (induction n)
  case 0
  show ?case by (simp add: keepsSets_def)
next
  case (Suc n)
  show ?case
    unfolding keepsSets_def call.simps
    by (intro allI impI) (rule setsOnly_invoke [OF Suc])
qed

subsection \<open>The Event constructor\<close>

text \<open>
  For a payload without the keys \<^verbatim>\<open>type\<close> and \<^verbatim>\<open>__proto__\<close>, the event object has
  the type it was constructed with, followed by the fields of the payload.
\<close>

lemma defineProperties_append:
  "distinct (map fst this @ map fst props) \<Longrightarrow> ''__proto__'' \<notin> fst ` set props \<Longrightarrow>
   defineProperties this props = this @ props"
proof (induction props arbitrary: this)
  case Nil
  then show ?case by simp
next
  case (Cons p props)
  obtain k v where p: "p = (k, v)" by (cases p)
  have a: "assign this k v = this @ [(k, v)]"
    if "k \<notin> fst ` set this" and "k \<noteq> ''__proto__''" for this :: object
    using that by (induction this) auto
  from Cons.prems p have "k \<notin> fst ` set this" and "k \<noteq> ''__proto__''" by auto
  then have "assign this k v = this @ [(k, v)]" by (rule a)
  moreover have "distinct (map fst (this @ [(k, v)]) @ map fst props)" using Cons.prems p by auto
  moreover have "''__proto__'' \<notin> fst ` set props" using Cons.prems by auto
  ultimately show ?case using Cons.IH [of "this @ [(k, v)]"] p by simp
qed

lemma Event_without_type_key:
  "''type'' \<notin> fst ` set payload \<Longrightarrow> ''__proto__'' \<notin> fst ` set payload \<Longrightarrow>
   distinct (map fst payload) \<Longrightarrow>
   Event T (Some \<lparr>properties = Some payload\<rparr>) = (''type'', VStr T) # payload"
  by (simp add: Event_def defineProperties_append)

subsection \<open>Nesting depth\<close>

text \<open>
  A result reached with some bound on the nesting of handler calls is the result with
  every larger bound.
\<close>

lemma andThen_more:
  assumes "andThen r f \<noteq> Diverged"
    and "r \<noteq> Diverged \<Longrightarrow> r' = r"
    and "\<And>v s. r = Returned v s \<Longrightarrow> f v s \<noteq> Diverged \<Longrightarrow> f' v s = f v s"
  shows "andThen r' f' = andThen r f"
  using assms by (cases r) auto

lemma on_more:
  assumes "extendedBy cc cc'" and "on cc T h opt s \<noteq> Diverged"
  shows "on cc' T h opt s = on cc T h opt s"
proof (cases "isValidEvent s (Single T)")
  case True
  show ?thesis
  proof (cases "callbacks s T = None \<and> inheritedName T")
    case True
    then show ?thesis using \<open>isValidEvent s (Single T)\<close> by (simp add: on_general)
  next
    case False
    let ?s1 = "s\<lparr>callbacks := (callbacks s)(T \<mapsto> setAdd (bucket s T) h)\<rparr>"
    let ?r = "\<lambda>cc. (if opt = Some True \<or> triggerLastEvent s
           then (case getLastEventObjectOf s T of
                   None \<Rightarrow> Returned VUndefined ?s1
                 | Some ev \<Rightarrow>
                     if truthy ev
                     then cc h (callbackContext s) ev ?s1
                     else Returned VUndefined ?s1)
           else Returned VUndefined ?s1)"
    have o: "on c T h opt s = andThen (?r c) (\<lambda>_ s. Returned (OffEvent T h) s)" for c
      using False \<open>isValidEvent s (Single T)\<close> by (auto simp: on_general)
    from assms(2) have "andThen (?r cc) (\<lambda>_ s. Returned (OffEvent T h) s) \<noteq> Diverged"
      unfolding o .
    then have "andThen (?r cc') (\<lambda>_ s. Returned (OffEvent T h) s) =
               andThen (?r cc) (\<lambda>_ s. Returned (OffEvent T h) s)"
      by (rule andThen_more) (use assms(1) in \<open>auto simp: extendedBy_def split: option.split\<close>)
    then show ?thesis unfolding o .
  qed
next
  case False
  then show ?thesis by (simp add: on_def validateEventType_invalid)
qed

lemma one_more:
  assumes "extendedBy cc cc'" and "one cc T h opt s \<noteq> Diverged"
  shows "one cc' T h opt s = one cc T h opt s"
proof (cases "isValidEvent s (Single T)")
  case True
  then show ?thesis
    using assms(2) by (simp add: one_def validateEventType_valid Let_def on_more [OF assms(1)])
next
  case False
  then show ?thesis by (simp add: one_def validateEventType_invalid)
qed

lemma mapCallbacks_more:
  assumes "extendedBy cc cc'"
  shows "mapCallbacks cc members e s \<noteq> Diverged \<Longrightarrow>
         mapCallbacks cc' members e s = mapCallbacks cc members e s"
proof (induction members arbitrary: s)
  case Nil
  show ?case by simp
next
  case (Cons cb members)
  from Cons.prems show ?case
    unfolding mapCallbacks.simps
  proof (rule andThen_more)
    assume "cc cb (callbackContext s) e s \<noteq> Diverged"
    then show "cc' cb (callbackContext s) e s = cc cb (callbackContext s) e s"
      using assms by (simp add: extendedBy_def)
  next
    fix v s1
    assume "andThen (mapCallbacks cc members e s1) (\<lambda>responses this2. Returned (v # responses) this2) \<noteq> Diverged"
    then have "mapCallbacks cc members e s1 \<noteq> Diverged" by (cases "mapCallbacks cc members e s1") auto
    then show "andThen (mapCallbacks cc' members e s1) (\<lambda>responses this2. Returned (v # responses) this2) =
               andThen (mapCallbacks cc members e s1) (\<lambda>responses this2. Returned (v # responses) this2)"
      by (simp add: Cons.IH)
  qed
qed

lemma trigger_more:
  assumes "extendedBy cc cc'" and "trigger cc x args s \<noteq> Diverged"
  shows "trigger cc' x args s = trigger cc x args s"
proof (cases "isValidEvent s (Single (eventTypeOf x))")
  case True
  let ?s1 = "s\<lparr>lastEvents := (lastEvents s)(eventTypeOf x \<mapsto> eventObjectOf x args)\<rparr>"
  let ?m = "\<lambda>cc. mapCallbacks cc (bucket s (eventTypeOf x)) (EventObject (eventObjectOf x args)) ?s1"
  show ?thesis
  proof (cases "disabled s \<or> \<not> hasCallbacks s (eventTypeOf x)")
    case True
    then show ?thesis using \<open>isValidEvent s (Single (eventTypeOf x))\<close> by (simp add: trigger_general)
  next
    case False
    show ?thesis
    proof (cases "callbacks s (eventTypeOf x) = None")
      case True
      then show ?thesis
        using False \<open>isValidEvent s (Single (eventTypeOf x))\<close> by (simp add: trigger_general)
    next
      case own: False
      with assms(2) False True have "?m cc \<noteq> Diverged"
        by (cases "?m cc") (auto simp: trigger_general)
      then have "?m cc' = ?m cc" by (rule mapCallbacks_more [OF assms(1)])
      then show ?thesis using False True own by (auto simp: trigger_general)
    qed
  qed
next
  case False
  then show ?thesis by (simp add: trigger_def validateEventType_invalid)
qed

lemma perform_more:
  assumes "extendedBy cc cc'" and "perform cc c s \<noteq> Diverged"
  shows "perform cc' c s = perform cc c s"
proof (cases c)
  case (DoOn T h opt)
  with assms(2) have "on cc T h opt s \<noteq> Diverged" by (cases "on cc T h opt s") auto
  then show ?thesis using DoOn by (simp add: on_more [OF assms(1)])
next
  case (DoOne T h opt)
  with assms(2) have "one cc T h opt s \<noteq> Diverged" by (cases "one cc T h opt s") auto
  then show ?thesis using DoOne by (simp add: one_more [OF assms(1)])
next
  case (DoTrigger x args)
  with assms(2) have "trigger cc x args s \<noteq> Diverged" by (cases "trigger cc x args s") auto
  then show ?thesis using DoTrigger by (simp add: trigger_more [OF assms(1)])
qed simp_all

lemma performAll_more:
  assumes "extendedBy cc cc'"
  shows "performAll cc cs s \<noteq> Diverged \<Longrightarrow> performAll cc' cs s = performAll cc cs s"
proof (induction cs arbitrary: s)
  case Nil
  show ?case by simp
next
  case (Cons c cs)
  from Cons.prems show ?case
    unfolding performAll.simps
    by (rule andThen_more) (simp_all add: perform_more [OF assms] Cons.IH)
qed

lemma invoke_more:
  assumes "extendedBy cc cc'"
  shows "invoke cc prog cb rcv e s \<noteq> Diverged \<Longrightarrow>
         invoke cc' prog cb rcv e s = invoke cc prog cb rcv e s"
proof (induction cb arbitrary: rcv s)
  case (Fn k)
  from Fn show ?case
    unfolding invoke.simps Let_def
    by (rule andThen_more) (simp_all add: performAll_more [OF assms])
next
  case (Onetime i T cb)
  from Onetime.prems show ?case
    unfolding invoke.simps Let_def
    by (rule andThen_more) (simp_all add: Onetime.IH)
qed

lemma call_Suc_more: "extendedBy (call n prog) (call (Suc n) prog)"
proof (induction n)
  case 0
  show ?case by (simp add: extendedBy_def)
next
  case (Suc n)
  show ?case
    unfolding extendedBy_def
  proof (intro allI impI)
    fix cb rcv e s
    assume "call (Suc n) prog cb rcv e s \<noteq> Diverged"
    then show "call (Suc (Suc n)) prog cb rcv e s = call (Suc n) prog cb rcv e s"
      using invoke_more [OF Suc, of prog cb rcv e s] by simp
  qed
qed

lemma call_more: "extendedBy (call n prog) (call (n + m) prog)"
proof (induction m)
  case 0
  show ?case by (simp add: extendedBy_def)
next
  case (Suc m)
  show ?case
    unfolding extendedBy_def
  proof (intro allI impI)
    fix cb rcv e s
    assume a: "call n prog cb rcv e s \<noteq> Diverged"
    with Suc have b: "call (n + m) prog cb rcv e s = call n prog cb rcv e s" by (simp add: extendedBy_def)
    with a have "call (n + m) prog cb rcv e s \<noteq> Diverged" by simp
    with call_Suc_more [of "n + m" prog] have "call (Suc (n + m)) prog cb rcv e s = call (n + m) prog cb rcv e s"
      by (simp add: extendedBy_def)
    with b show "call (n + Suc m) prog cb rcv e s = call n prog cb rcv e s" by simp
  qed
qed

subsection \<open>Rules and rejections\<close>

text \<open>
  No call changes the rules, and an error of \<^verbatim>\<open>validateEventType\<close>, raised by the
  call itself or by a call that a handler made, names an argument that is not valid.
\<close>

lemma rejectsSoundly_simps [simp]:
  "rejectsSoundly rules Diverged"
  "rejectsSoundly rules (Returned v s) = (validEventTypes s = rules)"
  "rejectsSoundly rules (Threw (InvalidEventType T) s) = (validEventTypes s = rules \<and> \<not> validUnder rules T)"
  "rejectsSoundly rules (Threw TypeError s) = (validEventTypes s = rules)"
  "rejectsSoundly rules (Threw (Thrown w) s) = (validEventTypes s = rules)"
  by (simp_all add: rejectsSoundly_def)

lemma rejectsSoundly_andThen:
  "rejectsSoundly rules r \<Longrightarrow>
   (\<And>v s. validEventTypes s = rules \<Longrightarrow> rejectsSoundly rules (f v s)) \<Longrightarrow>
   rejectsSoundly rules (andThen r f)"
  by (cases r) (simp_all add: rejectsSoundly_def)

lemma rejectsSoundly_validate:
  "validEventTypes s = rules \<Longrightarrow> rejectsSoundly rules (validateEventType s T)"
  by (simp add: validateEventType_def isValidEvent_def)

lemma rejectsSoundly_off:
  "validEventTypes s = rules \<Longrightarrow> rejectsSoundly rules (off T cb s)"
  unfolding off_def
  by (rule rejectsSoundly_andThen [OF rejectsSoundly_validate])
     (auto split: option.split)

lemma rejectsSoundly_on:
  assumes "soundCaller rules cc" and "validEventTypes s = rules"
  shows "rejectsSoundly rules (on cc T h opt s)"
  unfolding on_def
proof (rule rejectsSoundly_andThen [OF rejectsSoundly_validate [OF assms(2)]])
  fix v and this :: dispatcher
  assume r: "validEventTypes this = rules"
  show "rejectsSoundly rules
          (let triggerLastEvent' = opt = Some True \<or> triggerLastEvent this;
               this1 = if \<not> hasCallbacks this T then this\<lparr>callbacks := (callbacks this)(T \<mapsto> [])\<rparr> else this
           in case callbacks this1 T of None \<Rightarrow> Threw TypeError this1
              | Some members \<Rightarrow>
                  let this2 = this1\<lparr>callbacks := (callbacks this1)(T \<mapsto> setAdd members h)\<rparr>
                  in andThen
                       (if triggerLastEvent'
                        then case getLastEventObjectOf this2 T of None \<Rightarrow> Returned VUndefined this2
                             | Some lastEventObject \<Rightarrow>
                                 if truthy lastEventObject
                                 then cc h (callbackContext this2) lastEventObject this2
                                 else Returned VUndefined this2
                        else Returned VUndefined this2)
                       (\<lambda>_ this3. Returned (OffEvent T h) this3))"
    using r assms(1)
    by (auto simp: Let_def soundCaller_def intro!: rejectsSoundly_andThen split: option.split)
qed

lemma rejectsSoundly_one:
  assumes "soundCaller rules cc" and "validEventTypes s = rules"
  shows "rejectsSoundly rules (one cc T h opt s)"
  unfolding one_def
  by (rule rejectsSoundly_andThen [OF rejectsSoundly_validate [OF assms(2)]])
     (simp add: Let_def rejectsSoundly_on [OF assms(1)])

lemma rejectsSoundly_mapCallbacks:
  assumes "soundCaller rules cc"
  shows "validEventTypes s = rules \<Longrightarrow> rejectsSoundly rules (mapCallbacks cc members e s)"
proof (induction members arbitrary: s)
  case Nil
  then show ?case by simp
next
  case (Cons cb members)
  show ?case
    unfolding mapCallbacks.simps
    using assms Cons
    by (auto simp: soundCaller_def intro!: rejectsSoundly_andThen)
qed

lemma rejectsSoundly_trigger:
  assumes "soundCaller rules cc" and "validEventTypes s = rules"
  shows "rejectsSoundly rules (trigger cc x args s)"
  unfolding trigger_def Let_def
proof (rule rejectsSoundly_andThen [OF rejectsSoundly_validate [OF assms(2)]])
  fix v and this :: dispatcher
  assume r: "validEventTypes this = rules"
  define this1 where
    "this1 = this\<lparr>lastEvents := (lastEvents this)(eventTypeOf x \<mapsto> eventObjectOf x args)\<rparr>"
  have r1: "validEventTypes this1 = rules" using r by (simp add: this1_def)
  have m: "rejectsSoundly rules
      (andThen (mapCallbacks cc members (EventObject (eventObjectOf x args)) this1)
         (\<lambda>responses s. Returned (Some responses) s))" for members
    by (rule rejectsSoundly_andThen [OF rejectsSoundly_mapCallbacks [OF assms(1) r1]]) simp
  show "rejectsSoundly rules
     (if disabled (this\<lparr>lastEvents := (lastEvents this)(eventTypeOf x \<mapsto> eventObjectOf x args)\<rparr>) \<or>
         \<not> hasCallbacks (this\<lparr>lastEvents := (lastEvents this)(eventTypeOf x \<mapsto> eventObjectOf x args)\<rparr>)
              (eventTypeOf x)
      then Returned None (this\<lparr>lastEvents := (lastEvents this)(eventTypeOf x \<mapsto> eventObjectOf x args)\<rparr>)
      else case callbacksForEvent
                  (this\<lparr>lastEvents := (lastEvents this)(eventTypeOf x \<mapsto> eventObjectOf x args)\<rparr>)
                  (eventTypeOf x) of
             Handlers members \<Rightarrow>
               andThen
                 (mapCallbacks cc members (EventObject (eventObjectOf x args))
                    (this\<lparr>lastEvents := (lastEvents this)(eventTypeOf x \<mapsto> eventObjectOf x args)\<rparr>))
                 (\<lambda>responses this2. Returned (Some responses) this2)
           | Inherited n \<Rightarrow>
               if n = 0
               then Returned (Some [])
                      (this\<lparr>lastEvents := (lastEvents this)(eventTypeOf x \<mapsto> eventObjectOf x args)\<rparr>)
               else Threw TypeError
                      (this\<lparr>lastEvents := (lastEvents this)(eventTypeOf x \<mapsto> eventObjectOf x args)\<rparr>)
           | Undefined \<Rightarrow>
               Threw TypeError
                 (this\<lparr>lastEvents := (lastEvents this)(eventTypeOf x \<mapsto> eventObjectOf x args)\<rparr>))"
    unfolding this1_def [symmetric] using r1 m by (simp split: registryValue.split)
qed

lemma rejectsSoundly_perform:
  assumes "soundCaller rules cc" and "validEventTypes s = rules"
  shows "rejectsSoundly rules (perform cc c s)"
  using assms
  by (cases c)
     (auto simp: disable_def enable_def clear_def setCallbackContext_def removeLastEventObjectOf_def
        intro!: rejectsSoundly_andThen rejectsSoundly_on rejectsSoundly_one rejectsSoundly_off
          rejectsSoundly_trigger split: option.split)

lemma rejectsSoundly_performAll:
  assumes "soundCaller rules cc"
  shows "validEventTypes s = rules \<Longrightarrow> rejectsSoundly rules (performAll cc cs s)"
proof (induction cs arbitrary: s)
  case Nil
  then show ?case by simp
next
  case (Cons c cs)
  show ?case
    unfolding performAll.simps
    by (rule rejectsSoundly_andThen [OF rejectsSoundly_perform [OF assms Cons.prems]]) (rule Cons.IH)
qed

lemma rejectsSoundly_invoke:
  assumes "soundCaller rules cc"
  shows "validEventTypes s = rules \<Longrightarrow> rejectsSoundly rules (invoke cc prog cb rcv e s)"
proof (induction cb arbitrary: rcv s)
  case (Fn k)
  show ?case
    unfolding invoke.simps Let_def
    by (rule rejectsSoundly_andThen [OF rejectsSoundly_performAll [OF assms]])
       (use Fn in \<open>auto split: completion.split\<close>)
next
  case (Onetime i T cb)
  show ?case
    unfolding invoke.simps Let_def
    by (rule rejectsSoundly_andThen [OF rejectsSoundly_off]) (use Onetime in auto)
qed

lemma soundCaller_call: "soundCaller rules (call n prog)"
proof (induction n)
  case 0
  show ?case by (simp add: soundCaller_def)
next
  case (Suc n)
  show ?case
    unfolding soundCaller_def call.simps
    by (intro allI impI) (rule rejectsSoundly_invoke [OF Suc])
qed

lemma rejection_means_invalid:
  assumes "r = Threw (InvalidEventType T) s'" and "rejectsSoundly (validEventTypes this) r"
  shows "\<not> isValidEvent this T"
  using assms by (simp add: isValidEvent_def)

subsection \<open>The store\<close>



subsection \<open>The cache entry\<close>

text \<open>
  For a valid event type, \<^verbatim>\<open>trigger\<close> writes the event object it delivers into the
  cache before anything else. On a disabled dispatcher, or for a type without a key in
  the registry, it returns \<^verbatim>\<open>null\<close> in the state that differs from the state before
  only in this entry: no handler is called. In every case, when the call ends the cache
  holds the event object, unless a handler wrote the entry itself.
\<close>

lemma trigger_records_event:
  assumes "isValidEvent this (Single (eventTypeOf x))"
  shows "(disabled this \<or> \<not> hasCallbacks this (eventTypeOf x) \<longrightarrow>
            trigger cc x args this =
              Returned None
                (this\<lparr>lastEvents := (lastEvents this)(eventTypeOf x \<mapsto> eventObjectOf x args)\<rparr>))
         \<and> ((\<forall>cb rcv s. lastEvents s (eventTypeOf x) = Some (eventObjectOf x args) \<longrightarrow>
                atEnd (\<lambda>s'. lastEvents s' (eventTypeOf x) = Some (eventObjectOf x args))
                  (cc cb rcv (EventObject (eventObjectOf x args)) s)) \<longrightarrow>
              atEnd (\<lambda>s'. lastEvents s' (eventTypeOf x) = Some (eventObjectOf x args))
                (trigger cc x args this))"
proof (intro conjI impI)
  assume "disabled this \<or> \<not> hasCallbacks this (eventTypeOf x)"
  then show "trigger cc x args this =
      Returned None (this\<lparr>lastEvents := (lastEvents this)(eventTypeOf x \<mapsto> eventObjectOf x args)\<rparr>)"
    using assms by (simp add: trigger_general)
next
  let ?P = "\<lambda>s'. lastEvents s' (eventTypeOf x) = Some (eventObjectOf x args)"
  let ?this1 = "this\<lparr>lastEvents := (lastEvents this)(eventTypeOf x \<mapsto> eventObjectOf x args)\<rparr>"
  assume frame: "\<forall>cb rcv s. ?P s \<longrightarrow> atEnd ?P (cc cb rcv (EventObject (eventObjectOf x args)) s)"
  have "atEnd ?P (mapCallbacks cc (bucket this (eventTypeOf x)) (EventObject (eventObjectOf x args)) ?this1)"
    by (rule mapCallbacks_atEnd) (use frame in simp_all)
  then have "atEnd ?P (andThen (mapCallbacks cc (bucket this (eventTypeOf x)) (EventObject (eventObjectOf x args)) ?this1)
      (\<lambda>responses s. Returned (Some responses) s))"
    by (rule atEnd_andThen) simp
  then show "atEnd ?P (trigger cc x args this)"
    using assms by (simp add: trigger_general)
qed

lemma trigger_records_event_example:
  "trigger (call (Suc 0) (\<lambda>k rcv e. ([], Return VUndefined))) (OfType ''click'') (Some [(''x'', VNum 1)])
     (disable (EventDispatcher \<lparr>optValidEventTypes = Some [Text ''click'', Text ''touch''], optTriggerLastEvent = None\<rparr>))
   = Returned None
       ((disable (EventDispatcher \<lparr>optValidEventTypes = Some [Text ''click'', Text ''touch''], optTriggerLastEvent = None\<rparr>))
          \<lparr>lastEvents := Map.empty(''click'' \<mapsto> [(''type'', VStr ''click''), (''x'', VNum 1)])\<rparr>)
   \<and> atEnd (\<lambda>s'. lastEvents s' ''click'' = Some [(''type'', VStr ''click''), (''x'', VNum 1)])
       (trigger (call (Suc 0) (\<lambda>k rcv e. ([], Return VUndefined))) (OfType ''click'') (Some [(''x'', VNum 1)])
          ((EventDispatcher \<lparr>optValidEventTypes = Some [Text ''click'', Text ''touch''], optTriggerLastEvent = None\<rparr>)
             \<lparr>callbacks := Map.empty(''click'' \<mapsto> [Fn 0])\<rparr>))"
proof -
  let ?cc = "call (Suc 0) (\<lambda>k rcv e. ([], Return VUndefined))"
  let ?d = "EventDispatcher \<lparr>optValidEventTypes = Some [Text ''click'', Text ''touch''], optTriggerLastEvent = None\<rparr>"
  let ?x = "OfType ''click''"
  let ?args = "Some [(''x'', VNum 1)]"
  have e: "eventObjectOf ?x ?args = [(''type'', VStr ''click''), (''x'', VNum 1)]"
    by (simp add: eventObjectOf_def Event_def)
  have t: "eventTypeOf ?x = ''click''" by (simp add: eventTypeOf_def)
  have v1: "isValidEvent (disable ?d) (Single (eventTypeOf ?x))"
    by (simp add: t isValidEvent_def validUnder_Single disable_def EventDispatcher_def)
  have v2: "isValidEvent (?d\<lparr>callbacks := Map.empty(''click'' \<mapsto> [Fn 0])\<rparr>) (Single (eventTypeOf ?x))"
    by (simp add: t isValidEvent_def validUnder_Single EventDispatcher_def)
  have frame: "\<forall>cb rcv s. lastEvents s (eventTypeOf ?x) = Some (eventObjectOf ?x ?args) \<longrightarrow>
      atEnd (\<lambda>s'. lastEvents s' (eventTypeOf ?x) = Some (eventObjectOf ?x ?args)) (?cc cb rcv (EventObject (eventObjectOf ?x ?args)) s)"
  proof (intro allI impI)
    fix cb rcv and s :: dispatcher assume a: "lastEvents s (eventTypeOf ?x) = Some (eventObjectOf ?x ?args)"
    let ?r = "invoke (call 0 (\<lambda>k rcv e. ([], Return VUndefined))) (\<lambda>k rcv e. ([], Return VUndefined)) cb rcv (EventObject (eventObjectOf ?x ?args)) s"
    have "atEnd (\<lambda>s'. lastEvents s' = lastEvents s) ?r"
      by (rule invoke_noscript_lastEvents) simp
    then show "atEnd (\<lambda>s'. lastEvents s' (eventTypeOf ?x) = Some (eventObjectOf ?x ?args)) (?cc cb rcv (EventObject (eventObjectOf ?x ?args)) s)"
      using a by (cases ?r) simp_all
  qed
  have d: "disabled (disable ?d)" by (simp add: disable_def)
  from trigger_records_event [OF v1, of ?cc ?args] d
  have 1: "trigger ?cc ?x ?args (disable ?d) =
      Returned None ((disable ?d)\<lparr>lastEvents := (lastEvents (disable ?d))(eventTypeOf ?x \<mapsto> eventObjectOf ?x ?args)\<rparr>)"
    by blast
  from trigger_records_event [OF v2, of ?cc ?args] frame
  have 2: "atEnd (\<lambda>s'. lastEvents s' (eventTypeOf ?x) = Some (eventObjectOf ?x ?args))
      (trigger ?cc ?x ?args (?d\<lparr>callbacks := Map.empty(''click'' \<mapsto> [Fn 0])\<rparr>))"
    by blast
  have le: "lastEvents (disable ?d) = Map.empty" by (simp add: disable_def EventDispatcher_def)
  from 1 2 show ?thesis by (simp only: e t le) 
qed

subsection \<open>One-time handlers in the usual cases\<close>

text \<open>
  \<^verbatim>\<open>one('click', h)\<close> and two calls of \<^verbatim>\<open>trigger('click')\<close> call \<open>h\<close> once; so they
  do when \<open>h\<close> itself triggers \<^verbatim>\<open>'click'\<close>.
\<close>

lemma one_called_once_by_two_triggers:
  "\<exists>s1 s2 s3 r1 r2.
     one (call (Suc n) (\<lambda>k rcv e. ([], Return VUndefined))) ''click'' (Fn 0) None
         (EventDispatcher \<lparr>optValidEventTypes = None, optTriggerLastEvent = None\<rparr>)
       = Returned (OffEvent ''click'' (Onetime 0 ''click'' (Fn 0))) s1 \<and>
     trigger (call (Suc n) (\<lambda>k rcv e. ([], Return VUndefined))) (OfType ''click'') None s1 = Returned r1 s2 \<and>
     trigger (call (Suc n) (\<lambda>k rcv e. ([], Return VUndefined))) (OfType ''click'') None s2 = Returned r2 s3 \<and>
     timesCalled (Fn 0) (calls s3) = 1"
  by (simp add: one_def on_def off_def trigger_def validateEventType_def isValidEvent_def validUnder_def
        EventDispatcher_def hasCallbacks_def inheritedName_iff setAdd_def setDelete_def eventTypeOf_def eventObjectOf_def Event_def
        callbacksForEvent_def Let_def timesCalled_def)

lemma one_called_once_when_it_triggers_itself:
  "\<exists>s1 s2 s3 r1 r2.
     one (call (Suc (Suc n)) (\<lambda>k rcv e. ([DoTrigger (OfType ''click'') None], Return VUndefined))) ''click'' (Fn 0) None
         (EventDispatcher \<lparr>optValidEventTypes = None, optTriggerLastEvent = None\<rparr>)
       = Returned (OffEvent ''click'' (Onetime 0 ''click'' (Fn 0))) s1 \<and>
     trigger (call (Suc (Suc n)) (\<lambda>k rcv e. ([DoTrigger (OfType ''click'') None], Return VUndefined))) (OfType ''click'') None s1
       = Returned r1 s2 \<and>
     trigger (call (Suc (Suc n)) (\<lambda>k rcv e. ([DoTrigger (OfType ''click'') None], Return VUndefined))) (OfType ''click'') None s2
       = Returned r2 s3 \<and>
     timesCalled (Fn 0) (calls s3) = 1"
  by (simp add: one_def on_def off_def trigger_def validateEventType_def isValidEvent_def validUnder_def
        EventDispatcher_def hasCallbacks_def inheritedName_iff setAdd_def setDelete_def eventTypeOf_def eventObjectOf_def Event_def
        callbacksForEvent_def Let_def timesCalled_def)

subsection \<open>The closure of one\<close>

text \<open>
  Called, the closure first removes itself from the members of its event type and then
  calls the handler it captured, with the receiver the dispatcher has and the same event
  object.
\<close>

lemma onetime_removes_itself_first:
  assumes "isValidEvent s (Single T)"
    and "callbacks s T \<noteq> None \<or> \<not> inheritedName T"
  shows "invoke cc prog (Onetime i T h) rcv e s =
     invoke cc prog h (callbackContext s) e
       (case callbacks s T of
          None \<Rightarrow> s\<lparr>calls := calls s @ [(Onetime i T h, rcv, e)]\<rparr>
        | Some members \<Rightarrow>
            s\<lparr>calls := calls s @ [(Onetime i T h, rcv, e)],
              callbacks := (callbacks s)(T \<mapsto> setDelete members (Onetime i T h))\<rparr>)"
proof -
  have "isValidEvent (s\<lparr>calls := calls s @ [(Onetime i T h, rcv, e)]\<rparr>) (Single T)"
    using assms by (simp add: isValidEvent_def)
  then show ?thesis
    using assms(2) by (auto simp: off_general Let_def split: option.split)
qed

subsection \<open>Registering a handler twice\<close>

text \<open>
  For an event type that is not an inherited name without an own key, on a dispatcher
  whose members for \<open>T\<close> are without repetition, as they always are
  (\<open>keepsSets_call\<close>). First part, for every handler: \<^verbatim>\<open>on\<close> for a handler that is a
  member hands the state on as it is; all it may do is replay the last event. Second
  part, for a handler that only returns a value: after both calls the registry is the
  one after the first, \<open>h\<close> occurs once among the members, and \<^verbatim>\<open>trigger\<close> returns one
  response for each member and calls \<open>h\<close> once.
\<close>

lemma on_twice_same_registry:
  assumes "isValidEvent this (Single T)"
    and "distinct (bucket this T)"
    and "callbacks this T \<noteq> None \<or> \<not> inheritedName T"
  shows "(h \<in> set (bucket this T) \<longrightarrow>
            on cc T h opt this =
              andThen
                (if opt = Some True \<or> triggerLastEvent this
                 then (case getLastEventObjectOf this T of
                         None \<Rightarrow> Returned VUndefined this
                       | Some ev \<Rightarrow>
                           if truthy ev
                           then cc h (callbackContext this) ev this
                           else Returned VUndefined this)
                 else Returned VUndefined this)
                (\<lambda>_ s. Returned (OffEvent T h) s))
         \<and> (returnsOnly cc h ret \<longrightarrow>
              (\<exists>s1 s2.
                 on cc T h optA this = Returned (OffEvent T h) s1 \<and>
                 on cc T h optB s1 = Returned (OffEvent T h) s2 \<and>
                 callbacks s2 = callbacks s1 \<and>
                 count_list (bucket s2 T) h = 1 \<and>
                 (\<not> disabled this \<and> (\<forall>c \<in> set (bucket s2 T). returnsOnly cc c (rets c)) \<longrightarrow>
                    (\<exists>s3. trigger cc (OfType T) args s2 =
                            Returned
                              (Some (map (\<lambda>c. rets c (callbackContext s2) (EventObject (eventObjectOf (OfType T) args)))
                                       (bucket s2 T)))
                              s3 \<and>
                          timesCalled h (drop (length (calls s2)) (calls s3)) = 1))))"
proof (intro conjI impI)
  assume m: "h \<in> set (bucket this T)"
  then obtain members where c: "callbacks this T = Some members" and hm: "h \<in> set members"
    by (cases "callbacks this T") (auto simp: bucket_def)
  have "(callbacks this)(T \<mapsto> setAdd (bucket this T) h) = callbacks this"
    using c hm by (auto simp: bucket_def setAdd_def)
  then have same: "this\<lparr>callbacks := (callbacks this)(T \<mapsto> setAdd (bucket this T) h)\<rparr> = this"
    by simp
  show "on cc T h opt this =
      andThen
        (if opt = Some True \<or> triggerLastEvent this
         then (case getLastEventObjectOf this T of
                 None \<Rightarrow> Returned VUndefined this
               | Some ev \<Rightarrow>
                   if truthy ev
                   then cc h (callbackContext this) ev this
                   else Returned VUndefined this)
         else Returned VUndefined this)
        (\<lambda>_ s. Returned (OffEvent T h) s)"
  proof -
    have "on cc T h opt this =
        andThen
          (if opt = Some True \<or> triggerLastEvent this
           then (case getLastEventObjectOf this T of
                   None \<Rightarrow> Returned VUndefined
                     (this\<lparr>callbacks := (callbacks this)(T \<mapsto> setAdd (bucket this T) h)\<rparr>)
                 | Some ev \<Rightarrow>
                     if truthy ev
                     then cc h (callbackContext this) ev
                            (this\<lparr>callbacks := (callbacks this)(T \<mapsto> setAdd (bucket this T) h)\<rparr>)
                     else Returned VUndefined
                            (this\<lparr>callbacks := (callbacks this)(T \<mapsto> setAdd (bucket this T) h)\<rparr>))
           else Returned VUndefined
                  (this\<lparr>callbacks := (callbacks this)(T \<mapsto> setAdd (bucket this T) h)\<rparr>))
          (\<lambda>_ s. Returned (OffEvent T h) s)"
      using c by (simp add: on_general [OF assms(1)])
    then show ?thesis unfolding same .
  qed
next
  assume ro: "returnsOnly cc h ret"
  show "\<exists>s1 s2.
          on cc T h optA this = Returned (OffEvent T h) s1 \<and>
          on cc T h optB s1 = Returned (OffEvent T h) s2 \<and>
          callbacks s2 = callbacks s1 \<and>
          count_list (bucket s2 T) h = 1 \<and>
          (\<not> disabled this \<and> (\<forall>c \<in> set (bucket s2 T). returnsOnly cc c (rets c)) \<longrightarrow>
             (\<exists>s3. trigger cc (OfType T) args s2 =
                     Returned
                       (Some (map (\<lambda>c. rets c (callbackContext s2) (EventObject (eventObjectOf (OfType T) args)))
                                (bucket s2 T)))
                       s3 \<and>
                   timesCalled h (drop (length (calls s2)) (calls s3)) = 1))"
  proof -
  define log1 where "log1 =
    (if optA = Some True \<or> triggerLastEvent this
     then (case getLastEventObjectOf this T of None \<Rightarrow> [] | Some ev \<Rightarrow>
         if truthy ev
         then [(h, callbackContext this, ev)]
         else [])
     else [])"
  define s1 where "s1 =
    this\<lparr>callbacks := (callbacks this)(T \<mapsto> setAdd (bucket this T) h), calls := calls this @ log1\<rparr>"
  define log2 where "log2 =
    (if optB = Some True \<or> triggerLastEvent s1
     then (case getLastEventObjectOf s1 T of None \<Rightarrow> [] | Some ev \<Rightarrow>
         if truthy ev
         then [(h, callbackContext s1, ev)]
         else [])
     else [])"
  define s2 where "s2 =
    s1\<lparr>callbacks := (callbacks s1)(T \<mapsto> setAdd (bucket s1 T) h), calls := calls s1 @ log2\<rparr>"
  define e where "e = EventObject (eventObjectOf (OfType T) args)"
  have v1: "isValidEvent s1 (Single T)" using assms(1) by (simp add: isValidEvent_def s1_def)
  have v2: "isValidEvent s2 (Single (eventTypeOf (OfType T)))"
    using v1 by (simp add: isValidEvent_def eventTypeOf_def s2_def)
  have k1: "callbacks s1 T \<noteq> None \<or> \<not> inheritedName T" by (simp add: s1_def)
  have o1: "on cc T h optA this = Returned (OffEvent T h) s1"
    unfolding s1_def log1_def by (rule on_returnsOnly [OF assms(1) ro assms(3)])
  have o2: "on cc T h optB s1 = Returned (OffEvent T h) s2"
    unfolding s2_def log2_def by (rule on_returnsOnly [OF v1 ro k1])
  have b1: "bucket s1 T = setAdd (bucket this T) h" by (simp add: bucket_def s1_def)
  have c2: "callbacks s2 T = Some (setAdd (bucket this T) h)"
    by (simp add: s2_def b1 setAdd_idem)
  then have b2: "bucket s2 T = setAdd (bucket this T) h" by (simp add: bucket_def)
  have c: "callbacks s2 = callbacks s1" by (simp add: s2_def b1 setAdd_idem) (simp add: s1_def)
  have n: "count_list (bucket s2 T) h = 1" unfolding b2 by (rule count_setAdd [OF assms(2)])
  have d2: "disabled s2 = disabled this" by (simp add: s2_def s1_def)
  have tr: "\<exists>s3. trigger cc (OfType T) args s2 =
                    Returned (Some (map (\<lambda>c. rets c (callbackContext s2) e) (bucket s2 T))) s3 \<and>
                  timesCalled h (drop (length (calls s2)) (calls s3)) = 1"
    if en: "\<not> disabled this" and ro: "\<forall>c \<in> set (bucket s2 T). returnsOnly cc c (rets c)"
  proof -
    define this1 where
      "this1 = s2\<lparr>lastEvents := (lastEvents s2)(T \<mapsto> eventObjectOf (OfType T) args)\<rparr>"
    define s3 where "s3 =
      this1\<lparr>calls := calls this1 @ map (\<lambda>c. (c, callbackContext this1, e)) (bucket s2 T)\<rparr>"
    have "trigger cc (OfType T) args s2 =
        andThen (mapCallbacks cc (bucket s2 T) e this1) (\<lambda>responses s. Returned (Some responses) s)"
      using en c2 by (simp add: trigger_general [OF v2] hasCallbacks_iff eventTypeOf_def d2 this1_def e_def)
    also have "mapCallbacks cc (bucket s2 T) e this1 =
        Returned (map (\<lambda>c. rets c (callbackContext this1) e) (bucket s2 T)) s3"
      unfolding s3_def by (rule mapCallbacks_returnsOnly [OF ro])
    finally have "trigger cc (OfType T) args s2 =
        Returned (Some (map (\<lambda>c. rets c (callbackContext s2) e) (bucket s2 T))) s3"
      by (simp add: this1_def)
    moreover have "timesCalled h (drop (length (calls s2)) (calls s3)) = 1"
      using n by (simp add: timesCalled_map s3_def this1_def)
    ultimately show ?thesis by blast
  qed
  from o1 o2 c n tr show ?thesis unfolding e_def by blast
qed
qed

lemma on_twice_same_registry_example:
  "\<exists>s1 s2.
     on (call (Suc 0) (\<lambda>k rcv e. ([], Return (VNum 7)))) ''click'' (Fn 0) None
       (EventDispatcher \<lparr>optValidEventTypes = Some [Text ''click'', Text ''touch''], optTriggerLastEvent = None\<rparr>)
       = Returned (OffEvent ''click'' (Fn 0)) s1 \<and>
     on (call (Suc 0) (\<lambda>k rcv e. ([], Return (VNum 7)))) ''click'' (Fn 0) None s1
       = Returned (OffEvent ''click'' (Fn 0)) s2 \<and>
     callbacks s2 = callbacks s1 \<and>
     bucket s2 ''click'' = [Fn 0] \<and>
     (\<exists>s3. trigger (call (Suc 0) (\<lambda>k rcv e. ([], Return (VNum 7)))) (OfType ''click'') None s2
             = Returned (Some [VNum 7]) s3 \<and>
           timesCalled (Fn 0) (drop (length (calls s2)) (calls s3)) = 1)"
proof -
  let ?prog = "\<lambda>(k::nat) (rcv::receiver) (e::argument). ([]::command list, Return (VNum 7))"
  let ?cc = "call (Suc 0) ?prog"
  let ?d = "EventDispatcher \<lparr>optValidEventTypes = Some [Text ''click'', Text ''touch''], optTriggerLastEvent = None\<rparr>"
  let ?rets = "\<lambda>(c::callback) (rcv::receiver) (e::argument). VNum 7"
  have v: "isValidEvent ?d (Single ''click'')"
    by (simp add: isValidEvent_def validUnder_Single EventDispatcher_def)
  have r: "returnsOnly ?cc c (?rets c)" if "c = Fn k" for c k
    using that by (simp add: returnsOnly_def Let_def)
  have dis: "distinct (bucket ?d ''click'')" by (simp add: bucket_def EventDispatcher_def)
  have k: "callbacks ?d ''click'' \<noteq> None \<or> \<not> inheritedName ''click''"
    by (simp add: inheritedName_iff)
  from on_twice_same_registry [where cc = ?cc and h = "Fn 0" and ret = "?rets (Fn 0)"
      and optA = None and optB = None and rets = ?rets and args = None, OF v dis k] r [OF refl, of 0]
  obtain s1 s2 where
    o1: "on ?cc ''click'' (Fn 0) None ?d = Returned (OffEvent ''click'' (Fn 0)) s1" and
    o2: "on ?cc ''click'' (Fn 0) None s1 = Returned (OffEvent ''click'' (Fn 0)) s2" and
    c: "callbacks s2 = callbacks s1" and
    tr: "\<not> disabled ?d \<and> (\<forall>c \<in> set (bucket s2 ''click''). returnsOnly ?cc c (?rets c)) \<longrightarrow>
          (\<exists>s3. trigger ?cc (OfType ''click'') None s2 =
                  Returned (Some (map (\<lambda>c. ?rets c (callbackContext s2) (EventObject (eventObjectOf (OfType ''click'') None)))
                                (bucket s2 ''click''))) s3 \<and>
                timesCalled (Fn 0) (drop (length (calls s2)) (calls s3)) = 1)"
    by blast
  have "on ?cc ''click'' (Fn 0) None ?d =
      Returned (OffEvent ''click'' (Fn 0)) (?d\<lparr>callbacks := Map.empty(''click'' \<mapsto> [Fn 0])\<rparr>)"
    by (subst on_returnsOnly [OF v r [OF refl] k]) (simp add: bucket_def setAdd_def EventDispatcher_def)
  with o1 have s1: "s1 = ?d\<lparr>callbacks := Map.empty(''click'' \<mapsto> [Fn 0])\<rparr>"
    by (simp only: outcome.inject)
  have b: "bucket s2 ''click'' = [Fn 0]" by (simp add: bucket_def c s1)
  have "\<not> disabled ?d" by (simp add: EventDispatcher_def)
  moreover have "\<forall>c \<in> set (bucket s2 ''click''). returnsOnly ?cc c (?rets c)"
    unfolding b using r by simp
  ultimately obtain s3 where
    "trigger ?cc (OfType ''click'') None s2 = Returned (Some [VNum 7]) s3"
    "timesCalled (Fn 0) (drop (length (calls s2)) (calls s3)) = 1"
    using tr unfolding b by auto
  with o1 o2 c b show ?thesis by blast
qed

subsection \<open>Replaying the last event\<close>

text \<open>
  For an event type that is not an inherited name without an own key: when the flag is
  set, by the option or by the constructor, and the cache holds an event object for
  \<open>T\<close>, the result of \<^verbatim>\<open>on\<close> is the result of calling \<open>h\<close> with that object and the
  current receiver, in the state in which \<open>h\<close> is registered, followed by the return of
  the function \<^verbatim>\<open>off\<close>. For a handler that only returns a value, the record of calls
  gains exactly this call. The example is \<^verbatim>\<open>trigger('click', {x: 1})\<close> followed by
  \<^verbatim>\<open>on('click', h)\<close> on a dispatcher constructed with the flag.
\<close>

lemma on_replays_cached_event:
  assumes "isValidEvent this (Single T)"
    and "opt = Some True \<or> triggerLastEvent this"
    and "lastEvents this T = Some ev"
    and "callbacks this T \<noteq> None \<or> \<not> inheritedName T"
  shows "on cc T h opt this =
           andThen
             (cc h (callbackContext this) (EventObject ev)
                (this\<lparr>callbacks := (callbacks this)(T \<mapsto> setAdd (bucket this T) h)\<rparr>))
             (\<lambda>_ s. Returned (OffEvent T h) s)
         \<and> (returnsOnly cc h ret \<longrightarrow>
              on cc T h opt this =
                Returned (OffEvent T h)
                  (this\<lparr>callbacks := (callbacks this)(T \<mapsto> setAdd (bucket this T) h),
                        calls := calls this @ [(h, callbackContext this, EventObject ev)]\<rparr>))"
  using assms by (auto simp: on_general returnsOnly_def getLastEventObjectOf_own)

lemma on_replays_cached_event_example:
  "\<exists>s1. trigger (call (Suc 0) (\<lambda>k rcv e. ([], Return VUndefined))) (OfType ''click'') (Some [(''x'', VNum 1)])
          (EventDispatcher \<lparr>optValidEventTypes = None, optTriggerLastEvent = Some True\<rparr>)
        = Returned None s1
      \<and> on (call (Suc 0) (\<lambda>k rcv e. ([], Return VUndefined))) ''click'' (Fn 0) None s1
        = Returned (OffEvent ''click'' (Fn 0))
            (s1\<lparr>callbacks := Map.empty(''click'' \<mapsto> [Fn 0]),
                calls := [(Fn 0, This, EventObject [(''type'', VStr ''click''), (''x'', VNum 1)])]\<rparr>)"
proof -
  let ?prog = "\<lambda>(k::nat) (rcv::receiver) (e::argument). ([]::command list, Return VUndefined)"
  let ?cc = "call (Suc 0) ?prog"
  let ?d = "EventDispatcher \<lparr>optValidEventTypes = None, optTriggerLastEvent = Some True\<rparr>"
  let ?ev = "[(''type'', VStr ''click''), (''x'', VNum 1)]"
  let ?s1 = "?d\<lparr>lastEvents := Map.empty(''click'' \<mapsto> ?ev)\<rparr>"
  have t: "trigger ?cc (OfType ''click'') (Some [(''x'', VNum 1)]) ?d = Returned None ?s1"
    by (simp add: trigger_general isValidEvent_def validUnder_Single EventDispatcher_def
          eventTypeOf_def eventObjectOf_def Event_def hasCallbacks_iff inheritedName_iff)
  have v: "isValidEvent ?s1 (Single ''click'')"
    by (simp add: isValidEvent_def validUnder_Single EventDispatcher_def)
  have f: "None = Some True \<or> triggerLastEvent ?s1" by (simp add: EventDispatcher_def)
  have l: "lastEvents ?s1 ''click'' = Some ?ev" by simp
  have r: "returnsOnly ?cc (Fn 0) (\<lambda>rcv e. VUndefined)" by (rule returnsOnly_call) simp
  have k: "callbacks ?s1 ''click'' \<noteq> None \<or> \<not> inheritedName ''click''"
    by (simp add: inheritedName_iff)
  from on_replays_cached_event [OF v f l k, of ?cc "Fn 0" "\<lambda>rcv e. VUndefined"] r
  have "on ?cc ''click'' (Fn 0) None ?s1 =
      Returned (OffEvent ''click'' (Fn 0))
        (?s1\<lparr>callbacks := (callbacks ?s1)(''click'' \<mapsto> setAdd (bucket ?s1 ''click'') (Fn 0)),
              calls := calls ?s1 @ [(Fn 0, callbackContext ?s1, EventObject ?ev)]\<rparr>)"
    by blast
  then have "on ?cc ''click'' (Fn 0) None ?s1 =
      Returned (OffEvent ''click'' (Fn 0))
        (?s1\<lparr>callbacks := Map.empty(''click'' \<mapsto> [Fn 0]), calls := [(Fn 0, This, EventObject ?ev)]\<rparr>)"
    by (simp add: EventDispatcher_def bucket_def setAdd_def)
  with t show ?thesis by blast
qed

subsection \<open>Inherited names\<close>

text \<open>
  On a new dispatcher with the default rules: the cache hands out the inherited value
  of \<^verbatim>\<open>'constructor'\<close>; \<^verbatim>\<open>off('toString')\<close> returns and \<^verbatim>\<open>off('toString', h)\<close>
  throws; \<^verbatim>\<open>trigger('valueOf')\<close> returns the empty list and
  \<^verbatim>\<open>trigger('hasOwnProperty')\<close> throws, both after writing the cache. After
  \<^verbatim>\<open>trigger('__proto__', {click: 1})\<close> the cache inherits the field \<^verbatim>\<open>click\<close>, and
  \<^verbatim>\<open>on('click', h, {triggerLastEvent: true})\<close> calls \<open>h\<close> with its value.
\<close>

lemma inherited_names_examples:
  "getLastEventObjectOf (EventDispatcher \<lparr>optValidEventTypes = None, optTriggerLastEvent = None\<rparr>)
       ''constructor'' = Some (InheritedValue ''constructor'')
   \<and> removeLastEventObjectOf ''constructor''
         (EventDispatcher \<lparr>optValidEventTypes = None, optTriggerLastEvent = None\<rparr>)
       = (Some (InheritedValue ''constructor''),
          EventDispatcher \<lparr>optValidEventTypes = None, optTriggerLastEvent = None\<rparr>)
   \<and> off ''toString'' None (EventDispatcher \<lparr>optValidEventTypes = None, optTriggerLastEvent = None\<rparr>)
       = Returned () (EventDispatcher \<lparr>optValidEventTypes = None, optTriggerLastEvent = None\<rparr>)
   \<and> off ''toString'' (Some h) (EventDispatcher \<lparr>optValidEventTypes = None, optTriggerLastEvent = None\<rparr>)
       = Threw TypeError (EventDispatcher \<lparr>optValidEventTypes = None, optTriggerLastEvent = None\<rparr>)
   \<and> trigger cc (OfType ''valueOf'') None
         (EventDispatcher \<lparr>optValidEventTypes = None, optTriggerLastEvent = None\<rparr>)
       = Returned (Some [])
           ((EventDispatcher \<lparr>optValidEventTypes = None, optTriggerLastEvent = None\<rparr>)
              \<lparr>lastEvents := Map.empty(''valueOf'' \<mapsto> [(''type'', VStr ''valueOf'')])\<rparr>)
   \<and> trigger cc (OfType ''hasOwnProperty'') None
         (EventDispatcher \<lparr>optValidEventTypes = None, optTriggerLastEvent = None\<rparr>)
       = Threw TypeError
           ((EventDispatcher \<lparr>optValidEventTypes = None, optTriggerLastEvent = None\<rparr>)
              \<lparr>lastEvents := Map.empty(''hasOwnProperty'' \<mapsto> [(''type'', VStr ''hasOwnProperty'')])\<rparr>)"
  by (simp add: off_def trigger_def validateEventType_def isValidEvent_def validUnder_def
        EventDispatcher_def hasCallbacks_def inheritedName_iff objectPrototype_def eventTypeOf_def
        eventObjectOf_def Event_def callbacksForEvent_def getLastEventObjectOf_def
        removeLastEventObjectOf_def lastEventsProperty_def Let_def)

lemma cache_prototype_example:
  "\<exists>s1 s2.
     trigger (call (Suc n) (\<lambda>k rcv e. ([], Return VUndefined))) (OfType ''__proto__'')
         (Some [(''click'', VNum 1)])
         (EventDispatcher \<lparr>optValidEventTypes = None, optTriggerLastEvent = None\<rparr>)
       = Returned (Some []) s1 \<and>
     getLastEventObjectOf s1 ''__proto__'' =
       Some (EventObject [(''type'', VStr ''__proto__''), (''click'', VNum 1)]) \<and>
     snd (removeLastEventObjectOf ''__proto__'' s1) = s1 \<and>
     getLastEventObjectOf s1 ''click'' = Some (FieldValue (VNum 1)) \<and>
     on (call (Suc n) (\<lambda>k rcv e. ([], Return VUndefined))) ''click'' (Fn 0) (Some True) s1
       = Returned (OffEvent ''click'' (Fn 0)) s2 \<and>
     calls s2 = [(Fn 0, This, FieldValue (VNum 1))]"
  by (simp add: on_def trigger_def validateEventType_def isValidEvent_def validUnder_def
        EventDispatcher_def hasCallbacks_def inheritedName_iff objectPrototype_def eventTypeOf_def
        eventObjectOf_def Event_def callbacksForEvent_def getLastEventObjectOf_def setAdd_def
        removeLastEventObjectOf_def lastEventsProperty_def eventPrototype_def Let_def)

section \<open>The test suite\<close>

text \<open>
  The tests of tests/EventDispatcher.spec.ts, with their expectations, hold of the
  definitions. A test is the list of its calls; an expectation on a mock handler is
  read off the record of calls.
\<close>

lemmas suite_defs =
  suiteDispatcher_def jestFn_def EventDispatcher_def one_def on_def off_def trigger_def
  validateEventType_def isValidEvent_def validUnder_def hasCallbacks_def inheritedName_iff callbacksForEvent_def
  setAdd_def setDelete_def eventTypeOf_def eventObjectOf_def Event_def Let_def
  getLastEventObjectOf_def lastEventsProperty_def removeLastEventObjectOf_def disable_def enable_def clear_def
  setCallbackContext_def

lemma test_register_and_trigger_event:
  "\<exists>s. performAll (call (Suc n) jestFn)
          [DoOn ''click'' (Fn 0) None, DoOn ''touch'' (Fn 0) None, DoOne ''touch'' (Fn 0) None,
           DoTrigger (OfType ''click'') (Some [(''arg1'', VStr ''foo''), (''arg2'', VStr ''bar'')]),
           DoTrigger (OfType ''touch'') (Some [(''arg1'', VStr ''foo''), (''arg2'', VStr ''bar'')])]
          suiteDispatcher = Returned () s \<and>
        map (\<lambda>(cb, rcv, e). e) (filter (\<lambda>entry. fst entry = Fn 0) (calls s)) =
          [EventObject [(''type'', VStr ''click''), (''arg1'', VStr ''foo''), (''arg2'', VStr ''bar'')],
           EventObject [(''type'', VStr ''touch''), (''arg1'', VStr ''foo''), (''arg2'', VStr ''bar'')],
           EventObject [(''type'', VStr ''touch''), (''arg1'', VStr ''foo''), (''arg2'', VStr ''bar'')]]"
  by (simp add: suite_defs)

lemma test_trigger_returns_response_array:
  "\<exists>s1 s2 s3.
     on (call (Suc n) (\<lambda>k rcv e. ([], Return (VBool (k = 0))))) ''touch'' (Fn 0) None suiteDispatcher
       = Returned (OffEvent ''touch'' (Fn 0)) s1 \<and>
     on (call (Suc n) (\<lambda>k rcv e. ([], Return (VBool (k = 0))))) ''touch'' (Fn 1) None s1
       = Returned (OffEvent ''touch'' (Fn 1)) s2 \<and>
     trigger (call (Suc n) (\<lambda>k rcv e. ([], Return (VBool (k = 0))))) (OfType ''touch'') None s2
       = Returned (Some [VBool True, VBool False]) s3"
  by (simp add: suite_defs)

lemma test_register_with_regular_expression:
  "(\<exists>s. on cc ''clickFoo'' (Fn 0) None
          (EventDispatcher \<lparr>optValidEventTypes = Some [Pattern (\<lambda>s. \<exists>u v. s = u @ ''click'' @ v)],
                            optTriggerLastEvent = None\<rparr>) = Returned (OffEvent ''clickFoo'' (Fn 0)) s) \<and>
   (\<exists>s. on cc ''Foo'' (Fn 0) None
          (EventDispatcher \<lparr>optValidEventTypes = Some [Pattern (\<lambda>s. \<exists>u v. s = u @ ''click'' @ v)],
                            optTriggerLastEvent = None\<rparr>) = Threw (InvalidEventType (Single ''Foo'')) s)"
proof -
  have a: "\<exists>u v. ''clickFoo'' = u @ ''click'' @ v" by (rule exI [of _ "[]"], rule exI [of _ "''Foo''"]) simp
  have b: "\<not> (\<exists>u v. ''Foo'' = u @ ''click'' @ v)"
  proof
    assume "\<exists>u v. ''Foo'' = u @ ''click'' @ v"
    then obtain u v where "''Foo'' = u @ ''click'' @ v" by blast
    then have "length ''Foo'' = length (u @ ''click'' @ v)" by simp
    then show False by simp
  qed
  show ?thesis using a b by (simp add: suite_defs)
qed

lemma test_register_onetime_event:
  "\<exists>s. performAll (call (Suc n) jestFn)
          [DoOne ''click'' (Fn 0) None, DoTrigger (OfType ''click'') (Some []),
           DoTrigger (OfType ''click'') None]
          suiteDispatcher = Returned () s \<and>
        timesCalled (Fn 0) (calls s) = 1"
  by (simp add: suite_defs timesCalled_def)

lemma test_remove_with_callback_specified:
  "\<exists>s. performAll (call (Suc n) jestFn)
          [DoOn ''click'' (Fn 1) None, DoOn ''click'' (Fn 2) None, DoOn ''click'' (Fn 3) None,
           DoOff ''click'' (Some (Fn 1)), DoOff ''click'' (Some (Fn 2)),
           DoTrigger (OfType ''click'') None]
          suiteDispatcher = Returned () s \<and>
        map fst (calls s) = [Fn 3]"
  by (simp add: suite_defs)

lemma test_remove_with_callback_not_specified:
  "\<exists>s. performAll (call (Suc n) jestFn)
          [DoOn ''click'' (Fn 1) None, DoOn ''click'' (Fn 2) None, DoOff ''click'' None,
           DoTrigger (OfType ''click'') None]
          suiteDispatcher = Returned () s \<and>
        calls s = [] \<and> callbacks s ''click'' = None"
  by (simp add: suite_defs)

lemma test_throws_if_event_type_not_valid:
  "on cc ''foo'' (Fn 0) None suiteDispatcher = Threw (InvalidEventType (Single ''foo'')) suiteDispatcher \<and>
   one cc ''foo'' (Fn 0) None suiteDispatcher = Threw (InvalidEventType (Single ''foo'')) suiteDispatcher \<and>
   trigger cc (OfType ''foo'') None suiteDispatcher = Threw (InvalidEventType (Single ''foo'')) suiteDispatcher \<and>
   off ''foo'' None suiteDispatcher = Threw (InvalidEventType (Single ''foo'')) suiteDispatcher"
  by (simp add: suite_defs)

lemma test_disable_or_enable:
  "\<exists>s1 s2.
     performAll (call (Suc n) jestFn)
       [DoOn ''click'' (Fn 0) None, DoDisable, DoTrigger (OfType ''click'') None]
       suiteDispatcher = Returned () s1 \<and> calls s1 = [] \<and>
     performAll (call (Suc n) jestFn) [DoEnable, DoTrigger (OfType ''click'') None] s1 = Returned () s2 \<and>
     map fst (calls s2) = [Fn 0]"
  by (simp add: suite_defs)

lemma test_set_callback_context:
  "\<exists>s. performAll (call (Suc n) jestFn)
          [DoOne ''click'' (Fn 0) None, DoTrigger (OfType ''click'') None,
           DoSetCallbackContext (Object 7), DoOne ''click'' (Fn 1) None,
           DoTrigger (OfType ''click'') None]
          suiteDispatcher = Returned () s \<and>
        map (\<lambda>(cb, rcv, e). (cb, rcv)) (filter (\<lambda>entry. fst entry \<in> {Fn 0, Fn 1}) (calls s)) =
          [(Fn 0, This), (Fn 1, Object 7)]"
  by (simp add: suite_defs)

lemma test_store_and_trigger_last_event_object:
  "\<exists>s1 s2.
     trigger (call (Suc n) jestFn) (OfType ''click'')
        (Some [(''type'', VStr ''click''), (''timeStamp'', VNum 1700)]) suiteDispatcher
       = Returned None s1 \<and>
     getLastEventObjectOf s1 ''click'' =
       Some (EventObject [(''type'', VStr ''click''), (''timeStamp'', VNum 1700)]) \<and>
     on (call (Suc n) jestFn) ''click'' (Fn 0) (Some True) s1 = Returned (OffEvent ''click'' (Fn 0)) s2 \<and>
     calls s2 = [(Fn 0, This, EventObject [(''type'', VStr ''click''), (''timeStamp'', VNum 1700)])] \<and>
     getLastEventObjectOf (snd (removeLastEventObjectOf ''click'' s2)) ''click'' = None"
  by (simp add: suite_defs)

lemma test_clear_all_callbacks:
  "\<exists>s. performAll (call (Suc n) jestFn)
          [DoOn ''click'' (Fn 0) None, DoOn ''touch'' (Fn 0) None, DoClear,
           DoTrigger (OfType ''click'') None, DoTrigger (OfType ''touch'') None]
          suiteDispatcher = Returned () s \<and>
        calls s = []"
  by (simp add: suite_defs)

lemma test_mixin_to_another_class:
  "\<exists>w1 w2 w3.
     newHost (Api suiteDispatcher) \<lparr>dispatchers = (\<lambda>a. suiteDispatcher), allocated = 1\<rparr>
       = (\<lparr>eventDispatcher = 1\<rparr>, w1) \<and>
     hostOn (call (Suc n) (\<lambda>k rcv e. ([], Return (VBool False)))) \<lparr>eventDispatcher = 1\<rparr> ''touch'' (Fn 0) w1
       = Returned (OffEvent ''touch'' (Fn 0)) w2 \<and>
     hostTrigger (call (Suc n) (\<lambda>k rcv e. ([], Return (VBool False)))) \<lparr>eventDispatcher = 1\<rparr>
        (OfType ''touch'') (Some [(''foo'', VStr ''foobar'')]) w2
       = Returned (Some [VBool False]) w3 \<and>
     calls (dispatchers w3 1) = [(Fn 0, This, EventObject [(''type'', VStr ''touch''), (''foo'', VStr ''foobar'')])] \<and>
     calls (dispatchers w3 0) = []"
  by (simp add: suite_defs newHost_def createInstance_def Api_def hostOn_def hostTrigger_def atAddress_def)

section \<open>Claim C1: validation of several event types\<close>

text \<open>
  Claim C1: a submission of several event types is valid if and only if every member
  satisfies at least one rule, however many rules a member satisfies.

  The code accepts more. With the rules \<^verbatim>\<open>['click', /^click/]\<close> the submission
  \<^verbatim>\<open>['click', 'foo']\<close> is accepted: \<^verbatim>\<open>'click'\<close> satisfies both rules, which
  brings the counter to the number of members, and \<^verbatim>\<open>'foo'\<close> satisfies no rule.
\<close>

theorem isValidEvent_counts_matches:
  "isValidEvent
     (EventDispatcher
        \<lparr>optValidEventTypes = Some [Text ''click'', Pattern (\<lambda>s. take 5 s = ''click'')],
         optTriggerLastEvent = None\<rparr>)
     (Multiple [''click'', ''foo''])
   \<and> \<not> ruleTest (Text ''click'') ''foo''
   \<and> \<not> ruleTest (Pattern (\<lambda>s. take 5 s = ''click'')) ''foo''"
  by (simp add: isValidEvent_def EventDispatcher_def validUnder_def)

section \<open>Claim C2: the cache entry and the result null\<close>

text \<open>
  Claim C2: for a valid event type \<open>T\<close>, \<^verbatim>\<open>trigger\<close> stores the event object it
  delivers in the last-event cache for \<open>T\<close>, also when the dispatcher is disabled or no
  handlers are registered for \<open>T\<close>; in these two cases it returns \<^verbatim>\<open>null\<close> and calls
  no handler.

  The code returns \<^verbatim>\<open>null\<close> when the registry has no key for \<open>T\<close>
  (\<open>trigger_records_event\<close>), not when no handler is registered. After
  \<^verbatim>\<open>one('click', h)\<close> and a first \<^verbatim>\<open>trigger('click')\<close> the closure has removed itself
  and the key \<^verbatim>\<open>'click'\<close> is left with no members. A second
  \<^verbatim>\<open>trigger('click', {x: 1})\<close> on the enabled dispatcher writes the cache and calls no
  handler, as claimed, and returns the empty list, not \<^verbatim>\<open>null\<close>.
\<close>

theorem trigger_with_empty_bucket:
  "\<exists>s1 s2 s3.
     one (call (Suc n) (\<lambda>k rcv e. ([], Return VUndefined))) ''click'' (Fn 0) None
         (EventDispatcher \<lparr>optValidEventTypes = None, optTriggerLastEvent = None\<rparr>)
       = Returned (OffEvent ''click'' (Onetime 0 ''click'' (Fn 0))) s1 \<and>
     trigger (call (Suc n) (\<lambda>k rcv e. ([], Return VUndefined))) (OfType ''click'') None s1
       = Returned (Some [VUndefined]) s2 \<and>
     bucket s2 ''click'' = [] \<and>
     \<not> disabled s2 \<and>
     trigger (call (Suc n) (\<lambda>k rcv e. ([], Return VUndefined))) (OfType ''click'') (Some [(''x'', VNum 1)]) s2
       = Returned (Some []) s3 \<and>
     calls s3 = calls s2 \<and>
     lastEvents s3 ''click'' = Some [(''type'', VStr ''click''), (''x'', VNum 1)]"
  by (simp add: one_def on_def off_def trigger_def validateEventType_def isValidEvent_def validUnder_def
        EventDispatcher_def hasCallbacks_def inheritedName_iff setAdd_def setDelete_def eventTypeOf_def eventObjectOf_def Event_def
        callbacksForEvent_def Let_def bucket_def)

section \<open>Claim C3: delivery to all handlers in order\<close>

text \<open>
  Claim C3: on an enabled dispatcher with N handlers registered for \<open>T\<close>,
  \<^verbatim>\<open>trigger(T, ...)\<close> calls all N handlers once each, in the order of registration,
  each with the event object as argument and the current receiver, and returns their
  return values in that order, N of them.

  First part: the call returns \<open>r\<close> in state \<open>s'\<close> exactly when \<open>r\<close> is a list of N
  responses and there are states, from the one with the cache entry written to \<open>s'\<close>,
  such that the \<open>i\<close>-th member, called on the event object with the receiver of the
  \<open>i\<close>-th state, returns the \<open>i\<close>-th response and leaves the next state. Second part:
  when the members only return values, the call returns, and the record of calls gains
  the members in order. Third part: \<^verbatim>\<open>on\<close> puts a new handler after the members
  present, so the order of the members is the order of registration; it does so before
  it replays the last event, where it is asked to.
\<close>

theorem trigger_calls_members_in_order:
  assumes "isValidEvent this (Single (eventTypeOf x))"
    and "\<not> disabled this"
    and "callbacks this (eventTypeOf x) = Some members"
  shows "((trigger cc x args this = Returned r s') =
           (\<exists>responses states.
              r = Some responses \<and> length responses = length members \<and>
              length states = Suc (length members) \<and>
              states ! 0 =
                this\<lparr>lastEvents := (lastEvents this)(eventTypeOf x \<mapsto> eventObjectOf x args)\<rparr> \<and>
              states ! length members = s' \<and>
              (\<forall>i < length members.
                 cc (members ! i) (callbackContext (states ! i)) (EventObject (eventObjectOf x args)) (states ! i) =
                   Returned (responses ! i) (states ! Suc i))))
         \<and> ((\<forall>h \<in> set members. returnsOnly cc h (ret h)) \<longrightarrow>
              trigger cc x args this =
                Returned (Some (map (\<lambda>h. ret h (callbackContext this) (EventObject (eventObjectOf x args))) members))
                  (this\<lparr>lastEvents := (lastEvents this)(eventTypeOf x \<mapsto> eventObjectOf x args),
                        calls := calls this @
                          map (\<lambda>h. (h, callbackContext this, EventObject (eventObjectOf x args))) members\<rparr>))
         \<and> (h \<notin> set members \<longrightarrow>
              on cc (eventTypeOf x) h opt this =
                andThen
                  (if opt = Some True \<or> triggerLastEvent this
                   then (case getLastEventObjectOf this (eventTypeOf x) of
                           None \<Rightarrow>
                             Returned VUndefined
                               (this\<lparr>callbacks := (callbacks this)(eventTypeOf x \<mapsto> members @ [h])\<rparr>)
                         | Some lastEventObject \<Rightarrow>
                             if truthy lastEventObject
                             then cc h (callbackContext this) lastEventObject
                                    (this\<lparr>callbacks := (callbacks this)(eventTypeOf x \<mapsto> members @ [h])\<rparr>)
                             else Returned VUndefined
                                    (this\<lparr>callbacks := (callbacks this)(eventTypeOf x \<mapsto> members @ [h])\<rparr>))
                   else Returned VUndefined
                          (this\<lparr>callbacks := (callbacks this)(eventTypeOf x \<mapsto> members @ [h])\<rparr>))
                  (\<lambda>_ s. Returned (OffEvent (eventTypeOf x) h) s))"
proof (intro conjI impI)
  let ?this1 = "this\<lparr>lastEvents := (lastEvents this)(eventTypeOf x \<mapsto> eventObjectOf x args)\<rparr>"
  have tr: "trigger cc x args this =
      andThen (mapCallbacks cc members (EventObject (eventObjectOf x args)) ?this1)
        (\<lambda>responses s. Returned (Some responses) s)"
    using assms by (simp add: trigger_general hasCallbacks_iff bucket_def)
  have "(trigger cc x args this = Returned r s') =
      (\<exists>responses. r = Some responses \<and>
         mapCallbacks cc members (EventObject (eventObjectOf x args)) ?this1 = Returned responses s')"
    unfolding tr
    by (cases "mapCallbacks cc members (EventObject (eventObjectOf x args)) ?this1") auto
  then show "(trigger cc x args this = Returned r s') =
           (\<exists>responses states.
              r = Some responses \<and> length responses = length members \<and>
              length states = Suc (length members) \<and>
              states ! 0 = ?this1 \<and>
              states ! length members = s' \<and>
              (\<forall>i < length members.
                 cc (members ! i) (callbackContext (states ! i)) (EventObject (eventObjectOf x args)) (states ! i) =
                   Returned (responses ! i) (states ! Suc i)))"
    by (simp add: mapCallbacks_chain) blast
  {
    assume "\<forall>h \<in> set members. returnsOnly cc h (ret h)"
    then show "trigger cc x args this =
                Returned (Some (map (\<lambda>h. ret h (callbackContext this) (EventObject (eventObjectOf x args))) members))
                  (this\<lparr>lastEvents := (lastEvents this)(eventTypeOf x \<mapsto> eventObjectOf x args),
                        calls := calls this @
                          map (\<lambda>h. (h, callbackContext this, EventObject (eventObjectOf x args))) members\<rparr>)"
      unfolding tr by (simp add: mapCallbacks_returnsOnly)
  }
  {
    assume "h \<notin> set members"
    then show "on cc (eventTypeOf x) h opt this =
                andThen
                  (if opt = Some True \<or> triggerLastEvent this
                   then (case getLastEventObjectOf this (eventTypeOf x) of
                           None \<Rightarrow>
                             Returned VUndefined
                               (this\<lparr>callbacks := (callbacks this)(eventTypeOf x \<mapsto> members @ [h])\<rparr>)
                         | Some lastEventObject \<Rightarrow>
                             if truthy lastEventObject
                             then cc h (callbackContext this) lastEventObject
                                    (this\<lparr>callbacks := (callbacks this)(eventTypeOf x \<mapsto> members @ [h])\<rparr>)
                             else Returned VUndefined
                                    (this\<lparr>callbacks := (callbacks this)(eventTypeOf x \<mapsto> members @ [h])\<rparr>))
                   else Returned VUndefined
                          (this\<lparr>callbacks := (callbacks this)(eventTypeOf x \<mapsto> members @ [h])\<rparr>))
                  (\<lambda>_ s. Returned (OffEvent (eventTypeOf x) h) s)"
      using assms by (simp add: on_general bucket_def setAdd_def cong: option.case_cong if_cong)
  }
qed

theorem trigger_calls_members_in_order_witness:
  "trigger (call (Suc 0) (\<lambda>k rcv e. ([], Return (VBool (k = 0))))) (OfType ''touch'') None
     ((EventDispatcher \<lparr>optValidEventTypes = Some [Text ''click'', Text ''touch''], optTriggerLastEvent = None\<rparr>)
        \<lparr>callbacks := Map.empty(''touch'' \<mapsto> [Fn 0, Fn 1])\<rparr>)
   = Returned (Some [VBool True, VBool False])
       ((EventDispatcher \<lparr>optValidEventTypes = Some [Text ''click'', Text ''touch''], optTriggerLastEvent = None\<rparr>)
          \<lparr>callbacks := Map.empty(''touch'' \<mapsto> [Fn 0, Fn 1]),
           lastEvents := Map.empty(''touch'' \<mapsto> [(''type'', VStr ''touch'')]),
           calls := [(Fn 0, This, EventObject [(''type'', VStr ''touch'')]), (Fn 1, This, EventObject [(''type'', VStr ''touch'')])]\<rparr>)
   \<and> on (call (Suc 0) (\<lambda>k rcv e. ([], Return (VBool (k = 0))))) ''touch'' (Fn 2) None
       ((EventDispatcher \<lparr>optValidEventTypes = Some [Text ''click'', Text ''touch''], optTriggerLastEvent = None\<rparr>)
          \<lparr>callbacks := Map.empty(''touch'' \<mapsto> [Fn 0, Fn 1])\<rparr>)
     = Returned (OffEvent ''touch'' (Fn 2))
         ((EventDispatcher \<lparr>optValidEventTypes = Some [Text ''click'', Text ''touch''], optTriggerLastEvent = None\<rparr>)
            \<lparr>callbacks := Map.empty(''touch'' \<mapsto> [Fn 0, Fn 1, Fn 2])\<rparr>)
   \<and> (\<exists>states.
         length states = 3 \<and>
         call (Suc 0) (\<lambda>k rcv e. ([], Return (VBool (k = 0)))) (Fn 0) (callbackContext (states ! 0))
           (EventObject [(''type'', VStr ''touch'')]) (states ! 0) = Returned (VBool True) (states ! 1) \<and>
         call (Suc 0) (\<lambda>k rcv e. ([], Return (VBool (k = 0)))) (Fn 1) (callbackContext (states ! 1))
           (EventObject [(''type'', VStr ''touch'')]) (states ! 1) = Returned (VBool False) (states ! 2))"
proof -
  let ?prog = "\<lambda>(k::nat) (rcv::receiver) (e::argument). ([]::command list, Return (VBool (k = 0)))"
  let ?cc = "call (Suc 0) ?prog"
  let ?d0 = "EventDispatcher \<lparr>optValidEventTypes = Some [Text ''click'', Text ''touch''], optTriggerLastEvent = None\<rparr>"
  let ?d = "?d0\<lparr>callbacks := Map.empty(''touch'' \<mapsto> [Fn 0, Fn 1])\<rparr>"
  let ?x = "OfType ''touch''"
  have t: "eventTypeOf ?x = ''touch''" by (simp add: eventTypeOf_def)
  have e: "eventObjectOf ?x None = [(''type'', VStr ''touch'')]"
    by (simp add: eventObjectOf_def Event_def)
  have v: "isValidEvent ?d (Single (eventTypeOf ?x))"
    by (simp add: t isValidEvent_def validUnder_Single EventDispatcher_def)
  have en: "\<not> disabled ?d" by (simp add: EventDispatcher_def)
  have m: "callbacks ?d (eventTypeOf ?x) = Some [Fn 0, Fn 1]" by (simp add: t)
  have r: "\<forall>h \<in> set [Fn 0, Fn 1]. returnsOnly ?cc h (\<lambda>rcv e. VBool (h = Fn 0))"
    by (simp add: returnsOnly_def Let_def)
  have n: "Fn 2 \<notin> set [Fn 0, Fn 1]" by simp
  have fl: "\<not> (None = Some True \<or> triggerLastEvent ?d)" by (simp add: EventDispatcher_def)
  note th = trigger_calls_members_in_order [OF v en m, of ?cc None _ _ "\<lambda>h rcv e. VBool (h = Fn 0)" "Fn 2" None]
  from th r have 1: "trigger ?cc ?x None ?d =
      Returned (Some (map (\<lambda>h. VBool (h = Fn 0)) [Fn 0, Fn 1]))
        (?d\<lparr>lastEvents := (lastEvents ?d)(eventTypeOf ?x \<mapsto> eventObjectOf ?x None),
            calls := calls ?d @ map (\<lambda>h. (h, callbackContext ?d, EventObject (eventObjectOf ?x None))) [Fn 0, Fn 1]\<rparr>)"
    by blast
  from th n have "on ?cc (eventTypeOf ?x) (Fn 2) None ?d =
      andThen
        (if None = Some True \<or> triggerLastEvent ?d
         then (case getLastEventObjectOf ?d (eventTypeOf ?x) of
                 None \<Rightarrow>
                   Returned VUndefined
                     (?d\<lparr>callbacks := (callbacks ?d)(eventTypeOf ?x \<mapsto> [Fn 0, Fn 1] @ [Fn 2])\<rparr>)
               | Some lastEventObject \<Rightarrow>
                   if truthy lastEventObject
                   then ?cc (Fn 2) (callbackContext ?d) lastEventObject
                          (?d\<lparr>callbacks := (callbacks ?d)(eventTypeOf ?x \<mapsto> [Fn 0, Fn 1] @ [Fn 2])\<rparr>)
                   else Returned VUndefined
                          (?d\<lparr>callbacks := (callbacks ?d)(eventTypeOf ?x \<mapsto> [Fn 0, Fn 1] @ [Fn 2])\<rparr>))
         else Returned VUndefined
                (?d\<lparr>callbacks := (callbacks ?d)(eventTypeOf ?x \<mapsto> [Fn 0, Fn 1] @ [Fn 2])\<rparr>))
        (\<lambda>_ s. Returned (OffEvent (eventTypeOf ?x) (Fn 2)) s)"
    by blast
  with fl have 2: "on ?cc (eventTypeOf ?x) (Fn 2) None ?d =
      Returned (OffEvent (eventTypeOf ?x) (Fn 2))
        (?d\<lparr>callbacks := (callbacks ?d)(eventTypeOf ?x \<mapsto> [Fn 0, Fn 1] @ [Fn 2])\<rparr>)"
    by simp
  from th 1 obtain responses states where
    c: "Some (map (\<lambda>h. VBool (h = Fn 0)) [Fn 0, Fn 1]) = Some responses"
      "length states = Suc (length [Fn 0, Fn 1::callback])"
      "\<forall>i < length [Fn 0, Fn 1::callback].
         ?cc ([Fn 0, Fn 1] ! i) (callbackContext (states ! i)) (EventObject (eventObjectOf ?x None)) (states ! i) =
           Returned (responses ! i) (states ! Suc i)"
    by blast
  from c(1) have r: "responses = [VBool True, VBool False]" by auto
  from c(3) [rule_format, of 0] c(3) [rule_format, of "Suc 0"] r
  have 3: "?cc (Fn 0) (callbackContext (states ! 0)) (EventObject [(''type'', VStr ''touch'')]) (states ! 0) =
             Returned (VBool True) (states ! 1)"
    "?cc (Fn 1) (callbackContext (states ! 1)) (EventObject [(''type'', VStr ''touch'')]) (states ! 1) =
             Returned (VBool False) (states ! 2)"
    by (simp_all add: e numeral_2_eq_2)
  from c(2) have 4: "length states = 3" by simp
  from 3 4 have "\<exists>states.
         length states = 3 \<and>
         ?cc (Fn 0) (callbackContext (states ! 0)) (EventObject [(''type'', VStr ''touch'')]) (states ! 0) =
           Returned (VBool True) (states ! 1) \<and>
         ?cc (Fn 1) (callbackContext (states ! 1)) (EventObject [(''type'', VStr ''touch'')]) (states ! 1) =
           Returned (VBool False) (states ! 2)"
    by blast
  with 1 2 show ?thesis by (simp add: t e EventDispatcher_def)
qed

section \<open>Claim C4: keys of the registry\<close>

text \<open>
  Claim C4: every key of the registry has a handler; when \<^verbatim>\<open>off(T, h)\<close> removes the
  last handler of \<open>T\<close>, the key \<open>T\<close> is dropped, and \<open>T\<close> is then treated as having no
  handlers.

  The code keeps the key. On a new dispatcher, after \<^verbatim>\<open>on('click', h)\<close> and
  \<^verbatim>\<open>off('click', h)\<close> the registry has the key \<^verbatim>\<open>'click'\<close> with no members,
  \<^verbatim>\<open>hasCallbacks('click')\<close> is true, and \<^verbatim>\<open>trigger('click')\<close> returns the empty list,
  not \<^verbatim>\<open>null\<close>.
\<close>

theorem off_keeps_empty_bucket:
  "\<exists>s1 s2.
     on cc ''click'' (Fn 0) None (EventDispatcher \<lparr>optValidEventTypes = None, optTriggerLastEvent = None\<rparr>)
       = Returned (OffEvent ''click'' (Fn 0)) s1 \<and>
     off ''click'' (Some (Fn 0)) s1 = Returned () s2 \<and>
     callbacks s2 ''click'' = Some [] \<and>
     hasCallbacks s2 ''click'' \<and>
     (\<exists>s3. trigger cc (OfType ''click'') None s2 = Returned (Some []) s3)"
  by (simp add: on_def off_def trigger_def validateEventType_def isValidEvent_def validUnder_def
        EventDispatcher_def hasCallbacks_def inheritedName_iff setAdd_def setDelete_def eventTypeOf_def
        callbacksForEvent_def Let_def)

section \<open>Claim C5: the type field of the event object\<close>

text \<open>
  Claim C5: \<^verbatim>\<open>trigger(T, payload)\<close> constructs, delivers and caches an event object
  whose \<^verbatim>\<open>type\<close> is \<open>T\<close> and whose other fields are those of the payload, also for
  a payload that has a key \<^verbatim>\<open>type\<close>.

  For a payload without the key \<^verbatim>\<open>type\<close> (and without \<^verbatim>\<open>__proto__\<close>, which makes no
  field) this is \<open>Event_without_type_key\<close>. A payload
  with the key overwrites the field: \<^verbatim>\<open>trigger('click', {type: 'touch', x: 1})\<close>
  calls the handlers of \<^verbatim>\<open>'click'\<close> with an event object whose \<^verbatim>\<open>type\<close> is
  \<^verbatim>\<open>'touch'\<close>, and caches that object under \<^verbatim>\<open>'click'\<close>.
\<close>

theorem trigger_payload_overrides_type:
  "\<exists>s1 s2.
     on (call (Suc n) (\<lambda>k rcv e. ([], Return VUndefined))) ''click'' (Fn 0) None
        (EventDispatcher \<lparr>optValidEventTypes = None, optTriggerLastEvent = None\<rparr>)
       = Returned (OffEvent ''click'' (Fn 0)) s1 \<and>
     trigger (call (Suc n) (\<lambda>k rcv e. ([], Return VUndefined))) (OfType ''click'')
        (Some [(''type'', VStr ''touch''), (''x'', VNum 1)]) s1
       = Returned (Some [VUndefined]) s2 \<and>
     calls s2 = [(Fn 0, This, EventObject [(''type'', VStr ''touch''), (''x'', VNum 1)])] \<and>
     lastEvents s2 ''click'' = Some [(''type'', VStr ''touch''), (''x'', VNum 1)] \<and>
     lastEvents s2 ''touch'' = None"
  by (simp add: on_def trigger_def validateEventType_def isValidEvent_def validUnder_def
        EventDispatcher_def hasCallbacks_def inheritedName_iff setAdd_def eventTypeOf_def eventObjectOf_def Event_def
        callbacksForEvent_def Let_def)

section \<open>Claim C6: one-time handlers\<close>

text \<open>
  Claim C6: a handler \<open>h\<close> registered by \<^verbatim>\<open>one(T, h)\<close> is called at most once, however
  often \<open>T\<close> is triggered, also from inside a handler.

  The closure removes itself from the set before it calls \<open>h\<close>, but \<^verbatim>\<open>trigger\<close> maps
  over a copy of the set. Let \<open>g\<close> (\<open>Fn 1\<close>) trigger \<^verbatim>\<open>'click'\<close> when called, and
  register \<open>g\<close> and then \<open>h\<close> (\<open>Fn 2\<close>) with \<^verbatim>\<open>one\<close>. One \<^verbatim>\<open>trigger('click')\<close>
  copies both closures; the closure of \<open>g\<close> calls \<open>g\<close>, whose \<^verbatim>\<open>trigger\<close> copies the
  closure of \<open>h\<close>, which removes itself and calls \<open>h\<close>; the outer map then calls the
  closure of \<open>h\<close> from its own copy, and \<open>h\<close> is called again.
\<close>

theorem one_handler_called_twice:
  "\<exists>s1 s2 s3 r.
     one (call (Suc (Suc n)) (\<lambda>k rcv e. (if k = 1 then [DoTrigger (OfType ''click'') None] else [], Return VUndefined)))
         ''click'' (Fn 1) None
         (EventDispatcher \<lparr>optValidEventTypes = None, optTriggerLastEvent = None\<rparr>)
       = Returned (OffEvent ''click'' (Onetime 0 ''click'' (Fn 1))) s1 \<and>
     one (call (Suc (Suc n)) (\<lambda>k rcv e. (if k = 1 then [DoTrigger (OfType ''click'') None] else [], Return VUndefined)))
         ''click'' (Fn 2) None s1
       = Returned (OffEvent ''click'' (Onetime 1 ''click'' (Fn 2))) s2 \<and>
     trigger (call (Suc (Suc n)) (\<lambda>k rcv e. (if k = 1 then [DoTrigger (OfType ''click'') None] else [], Return VUndefined)))
         (OfType ''click'') None s2
       = Returned r s3 \<and>
     timesCalled (Fn 2) (calls s3) = 2"
  by (simp add: one_def on_def off_def trigger_def validateEventType_def isValidEvent_def validUnder_def
        EventDispatcher_def hasCallbacks_def inheritedName_iff setAdd_def setDelete_def eventTypeOf_def eventObjectOf_def Event_def
        callbacksForEvent_def Let_def timesCalled_def)

section \<open>Claim C7: rejection of invalid event types\<close>

text \<open>
  Claim C7: each of \<^verbatim>\<open>on\<close>, \<^verbatim>\<open>one\<close>, \<^verbatim>\<open>off\<close> and \<^verbatim>\<open>trigger\<close> raises the
  invalid-event-type error if and only if the event type it is given fails the rules,
  and it does so before it changes anything or calls a handler: after the rejected
  call the state is the state before.

  The error names the rejected event type. A call ends with the error for its own
  event type exactly when that type is not valid; then the state at the throw is the
  state before the call, whole. (A handler may itself make a call that is rejected;
  that error passes through \<^verbatim>\<open>trigger\<close> and names the type the handler gave, which
  by \<open>soundCaller_call\<close> is not valid either.)
\<close>

theorem rejects_iff_invalid:
  "((\<exists>s'. on (call n prog) T h opt this = Threw (InvalidEventType (Single T)) s') =
      (\<not> isValidEvent this (Single T)))
   \<and> ((\<exists>s'. one (call n prog) T h opt this = Threw (InvalidEventType (Single T)) s') =
      (\<not> isValidEvent this (Single T)))
   \<and> ((\<exists>s'. off T cb this = Threw (InvalidEventType (Single T)) s') =
      (\<not> isValidEvent this (Single T)))
   \<and> ((\<exists>s'. trigger (call n prog) x args this = Threw (InvalidEventType (Single (eventTypeOf x))) s') =
      (\<not> isValidEvent this (Single (eventTypeOf x))))
   \<and> (\<not> isValidEvent this (Single T) \<longrightarrow>
        on (call n prog) T h opt this = Threw (InvalidEventType (Single T)) this \<and>
        one (call n prog) T h opt this = Threw (InvalidEventType (Single T)) this \<and>
        off T cb this = Threw (InvalidEventType (Single T)) this)
   \<and> (\<not> isValidEvent this (Single (eventTypeOf x)) \<longrightarrow>
        trigger (call n prog) x args this = Threw (InvalidEventType (Single (eventTypeOf x))) this)"
proof -
  note sc = soundCaller_call [of "validEventTypes this" n prog]
  have on_inv: "on (call n prog) T h opt this = Threw (InvalidEventType (Single T)) this"
    and one_inv: "one (call n prog) T h opt this = Threw (InvalidEventType (Single T)) this"
    and off_inv: "off T cb this = Threw (InvalidEventType (Single T)) this"
    if "\<not> isValidEvent this (Single T)"
    using that by (simp_all add: on_def one_def off_def validateEventType_invalid)
  have tr_inv: "trigger (call n prog) x args this = Threw (InvalidEventType (Single (eventTypeOf x))) this"
    if "\<not> isValidEvent this (Single (eventTypeOf x))"
    using that by (simp add: trigger_def validateEventType_invalid)
  have on_val: "\<not> isValidEvent this (Single T)"
    if "on (call n prog) T h opt this = Threw (InvalidEventType (Single T)) s'" for s'
    using that rejectsSoundly_on [OF sc refl, where T = T and h = h and opt = opt] by (rule rejection_means_invalid)
  have one_val: "\<not> isValidEvent this (Single T)"
    if "one (call n prog) T h opt this = Threw (InvalidEventType (Single T)) s'" for s'
    using that rejectsSoundly_one [OF sc refl, where T = T and h = h and opt = opt] by (rule rejection_means_invalid)
  have off_val: "\<not> isValidEvent this (Single T)"
    if "off T cb this = Threw (InvalidEventType (Single T)) s'" for s'
    using that rejectsSoundly_off [OF refl, where s = this and T = T and cb = cb] by (rule rejection_means_invalid)
  have tr_val: "\<not> isValidEvent this (Single (eventTypeOf x))"
    if "trigger (call n prog) x args this = Threw (InvalidEventType (Single (eventTypeOf x))) s'" for s'
    using that rejectsSoundly_trigger [OF sc refl, where x = x and args = args] by (rule rejection_means_invalid)
  show ?thesis
    using on_inv one_inv off_inv tr_inv on_val one_val off_val tr_val by blast
qed

theorem rejects_iff_invalid_witness:
  "\<not> isValidEvent
       (EventDispatcher \<lparr>optValidEventTypes = Some [Text ''click'', Pattern (\<lambda>s. take 5 s = ''touch'')],
                         optTriggerLastEvent = None\<rparr>) (Single ''clickX'')
   \<and> on (call (Suc 0) (\<lambda>k rcv e. ([], Return VUndefined))) ''clickX'' (Fn 0) None
        (EventDispatcher \<lparr>optValidEventTypes = Some [Text ''click'', Pattern (\<lambda>s. take 5 s = ''touch'')],
                          optTriggerLastEvent = None\<rparr>)
      = Threw (InvalidEventType (Single ''clickX''))
          (EventDispatcher \<lparr>optValidEventTypes = Some [Text ''click'', Pattern (\<lambda>s. take 5 s = ''touch'')],
                            optTriggerLastEvent = None\<rparr>)
   \<and> one (call (Suc 0) (\<lambda>k rcv e. ([], Return VUndefined))) ''clickX'' (Fn 0) None
        (EventDispatcher \<lparr>optValidEventTypes = Some [Text ''click'', Pattern (\<lambda>s. take 5 s = ''touch'')],
                          optTriggerLastEvent = None\<rparr>)
      = Threw (InvalidEventType (Single ''clickX''))
          (EventDispatcher \<lparr>optValidEventTypes = Some [Text ''click'', Pattern (\<lambda>s. take 5 s = ''touch'')],
                            optTriggerLastEvent = None\<rparr>)
   \<and> off ''clickX'' None
        (EventDispatcher \<lparr>optValidEventTypes = Some [Text ''click'', Pattern (\<lambda>s. take 5 s = ''touch'')],
                          optTriggerLastEvent = None\<rparr>)
      = Threw (InvalidEventType (Single ''clickX''))
          (EventDispatcher \<lparr>optValidEventTypes = Some [Text ''click'', Pattern (\<lambda>s. take 5 s = ''touch'')],
                            optTriggerLastEvent = None\<rparr>)
   \<and> trigger (call (Suc 0) (\<lambda>k rcv e. ([], Return VUndefined))) (OfType ''clickX'') None
        (EventDispatcher \<lparr>optValidEventTypes = Some [Text ''click'', Pattern (\<lambda>s. take 5 s = ''touch'')],
                          optTriggerLastEvent = None\<rparr>)
      = Threw (InvalidEventType (Single ''clickX''))
          (EventDispatcher \<lparr>optValidEventTypes = Some [Text ''click'', Pattern (\<lambda>s. take 5 s = ''touch'')],
                            optTriggerLastEvent = None\<rparr>)
   \<and> isValidEvent
       (EventDispatcher \<lparr>optValidEventTypes = Some [Text ''click'', Pattern (\<lambda>s. take 5 s = ''touch'')],
                         optTriggerLastEvent = None\<rparr>) (Single ''touchA'')
   \<and> \<not> (\<exists>s'. on (call (Suc 0) (\<lambda>k rcv e. ([], Return VUndefined))) ''touchA'' (Fn 0) None
        (EventDispatcher \<lparr>optValidEventTypes = Some [Text ''click'', Pattern (\<lambda>s. take 5 s = ''touch'')],
                          optTriggerLastEvent = None\<rparr>)
      = Threw (InvalidEventType (Single ''touchA'')) s')"
proof -
  let ?prog = "\<lambda>(k::nat) (rcv::receiver) (e::argument). ([]::command list, Return VUndefined)"
  let ?d = "EventDispatcher \<lparr>optValidEventTypes = Some [Text ''click'', Pattern (\<lambda>s. take 5 s = ''touch'')],
                         optTriggerLastEvent = None\<rparr>"
  have t: "eventTypeOf (OfType ''clickX'') = ''clickX''" by (simp add: eventTypeOf_def)
  have inv: "\<not> isValidEvent ?d (Single ''clickX'')"
    by (simp add: isValidEvent_def validUnder_Single EventDispatcher_def)
  have val: "isValidEvent ?d (Single ''touchA'')"
    by (simp add: isValidEvent_def validUnder_Single EventDispatcher_def)
  note a = rejects_iff_invalid [of "Suc 0" ?prog "''clickX''" "Fn 0" None ?d None "OfType ''clickX''" None]
  note b = rejects_iff_invalid [of "Suc 0" ?prog "''touchA''" "Fn 0" None ?d None "OfType ''touchA''" None]
  from a inv have
    "on (call (Suc 0) ?prog) ''clickX'' (Fn 0) None ?d = Threw (InvalidEventType (Single ''clickX'')) ?d"
    "one (call (Suc 0) ?prog) ''clickX'' (Fn 0) None ?d = Threw (InvalidEventType (Single ''clickX'')) ?d"
    "off ''clickX'' None ?d = Threw (InvalidEventType (Single ''clickX'')) ?d"
    "trigger (call (Suc 0) ?prog) (OfType ''clickX'') None ?d = Threw (InvalidEventType (Single ''clickX'')) ?d"
    unfolding t by blast+
  moreover from b val have
    "\<not> (\<exists>s'. on (call (Suc 0) ?prog) ''touchA'' (Fn 0) None ?d = Threw (InvalidEventType (Single ''touchA'')) s')"
    by blast
  ultimately show ?thesis using inv val by blast
qed

section \<open>Claim C8: registering a handler twice\<close>

text \<open>
  Claim C8: calling \<^verbatim>\<open>on(T, h)\<close> a second time with the same handler leaves the
  registry as it was after the first call, and a following \<^verbatim>\<open>trigger(T)\<close> calls \<open>h\<close>
  once and has one entry for it in its result.

  This holds where \<^verbatim>\<open>on\<close> can register (\<open>on_twice_same_registry\<close>). It fails for an
  event type that every object inherits, such as \<^verbatim>\<open>'constructor'\<close>, which the default
  rules accept. On a new dispatcher \<^verbatim>\<open>hasCallbacks('constructor')\<close> is true although
  nothing is registered, so \<^verbatim>\<open>on\<close> creates no set and throws a \<^verbatim>\<open>TypeError\<close>,
  the first time and, the state being the same, the second time. \<^verbatim>\<open>trigger('constructor')\<close>
  then throws as well, after writing the cache: \<open>h\<close> is never called and there is no
  result.
\<close>

theorem on_inherited_name_never_registers:
  "hasCallbacks (EventDispatcher \<lparr>optValidEventTypes = None, optTriggerLastEvent = None\<rparr>) ''constructor''
   \<and> callbacks (EventDispatcher \<lparr>optValidEventTypes = None, optTriggerLastEvent = None\<rparr>) ''constructor'' = None
   \<and> on cc ''constructor'' h opt (EventDispatcher \<lparr>optValidEventTypes = None, optTriggerLastEvent = None\<rparr>)
       = Threw TypeError (EventDispatcher \<lparr>optValidEventTypes = None, optTriggerLastEvent = None\<rparr>)
   \<and> trigger cc (OfType ''constructor'') None
         (EventDispatcher \<lparr>optValidEventTypes = None, optTriggerLastEvent = None\<rparr>)
       = Threw TypeError
           ((EventDispatcher \<lparr>optValidEventTypes = None, optTriggerLastEvent = None\<rparr>)
              \<lparr>lastEvents := Map.empty(''constructor'' \<mapsto> [(''type'', VStr ''constructor'')])\<rparr>)
   \<and> calls ((EventDispatcher \<lparr>optValidEventTypes = None, optTriggerLastEvent = None\<rparr>)
              \<lparr>lastEvents := Map.empty(''constructor'' \<mapsto> [(''type'', VStr ''constructor'')])\<rparr>) = []"
  by (simp add: on_def trigger_def validateEventType_def isValidEvent_def validUnder_def
        EventDispatcher_def hasCallbacks_def inheritedName_iff objectPrototype_def eventTypeOf_def
        eventObjectOf_def Event_def callbacksForEvent_def Let_def)

section \<open>Claim C9: replaying the last event on registration\<close>

text \<open>
  Claim C9: when \<^verbatim>\<open>on(T, h, options)\<close> is called with \<^verbatim>\<open>options.triggerLastEvent\<close>
  true, or the dispatcher was constructed with \<^verbatim>\<open>triggerLastEvent\<close> true, and the
  cache holds an event object for \<open>T\<close>, then \<open>h\<close> is called with that object and the
  current receiver before \<^verbatim>\<open>on\<close> returns.

  This holds where \<^verbatim>\<open>on\<close> can register (\<open>on_replays_cached_event\<close>). It fails for
  an event type that every object inherits, such as \<^verbatim>\<open>'toString'\<close>. On a dispatcher
  constructed with the flag, \<^verbatim>\<open>trigger('toString', {x: 1})\<close> writes the event object
  into the cache and returns the empty list. \<^verbatim>\<open>on('toString', h)\<close> then throws a
  \<^verbatim>\<open>TypeError\<close> where it adds the handler, before it reads the cache: \<open>h\<close> is not
  called, whatever the options.
\<close>

theorem on_inherited_name_never_replays:
  "trigger cc (OfType ''toString'') (Some [(''x'', VNum 1)])
       (EventDispatcher \<lparr>optValidEventTypes = None, optTriggerLastEvent = Some True\<rparr>)
     = Returned (Some [])
         ((EventDispatcher \<lparr>optValidEventTypes = None, optTriggerLastEvent = Some True\<rparr>)
            \<lparr>lastEvents := Map.empty(''toString'' \<mapsto> [(''type'', VStr ''toString''), (''x'', VNum 1)])\<rparr>)
   \<and> triggerLastEvent
         ((EventDispatcher \<lparr>optValidEventTypes = None, optTriggerLastEvent = Some True\<rparr>)
            \<lparr>lastEvents := Map.empty(''toString'' \<mapsto> [(''type'', VStr ''toString''), (''x'', VNum 1)])\<rparr>)
   \<and> getLastEventObjectOf
         ((EventDispatcher \<lparr>optValidEventTypes = None, optTriggerLastEvent = Some True\<rparr>)
            \<lparr>lastEvents := Map.empty(''toString'' \<mapsto> [(''type'', VStr ''toString''), (''x'', VNum 1)])\<rparr>)
         ''toString''
       = Some (EventObject [(''type'', VStr ''toString''), (''x'', VNum 1)])
   \<and> on cc ''toString'' h opt
         ((EventDispatcher \<lparr>optValidEventTypes = None, optTriggerLastEvent = Some True\<rparr>)
            \<lparr>lastEvents := Map.empty(''toString'' \<mapsto> [(''type'', VStr ''toString''), (''x'', VNum 1)])\<rparr>)
       = Threw TypeError
           ((EventDispatcher \<lparr>optValidEventTypes = None, optTriggerLastEvent = Some True\<rparr>)
              \<lparr>lastEvents := Map.empty(''toString'' \<mapsto> [(''type'', VStr ''toString''), (''x'', VNum 1)])\<rparr>)
   \<and> calls
         ((EventDispatcher \<lparr>optValidEventTypes = None, optTriggerLastEvent = Some True\<rparr>)
            \<lparr>lastEvents := Map.empty(''toString'' \<mapsto> [(''type'', VStr ''toString''), (''x'', VNum 1)])\<rparr>) = []"
  by (simp add: on_def trigger_def validateEventType_def isValidEvent_def validUnder_def
        EventDispatcher_def hasCallbacks_def inheritedName_iff objectPrototype_def eventTypeOf_def
        eventObjectOf_def Event_def callbacksForEvent_def getLastEventObjectOf_def lastEventsProperty_def
        Let_def)

section \<open>Claim C10: instances of the Api class\<close>



end
